theory Spec2Isabelle
  imports Complex_Main
begin

section \<open>curlpip: a shallow embedding of \<open>scripts/curlpip.py\<close>\<close>

text \<open>
  The program is one Python class, \<open>ModuleInstaller\<close>. Its methods are translated
  one by one, under their own names. Python exceptions are values of the type \<open>error\<close>;
  a method that can raise returns \<open>error + 'a\<close>, with \<open>Inl\<close> for the exception.
  Strings are lists of characters; the character classes of the regular expressions
  (\<open>\w\<close>, \<open>\d\<close>, whitespace) are the ASCII ones, so the model speaks about ASCII text.
\<close>

subsection \<open>Exceptions\<close>

datatype error =
    SystemExit int
  | TypeError
  | KeyError
  | IndexError
  | AttributeError
  | IOError

definition bind_res :: "error + 'a \<Rightarrow> ('a \<Rightarrow> error + 'b) \<Rightarrow> error + 'b" where
  "bind_res r f = (case r of Inl e \<Rightarrow> Inl e | Inr v \<Rightarrow> f v)"

text \<open>A list comprehension whose elements may raise: the first exception wins.\<close>

fun collect_results :: "(error + 'a) list \<Rightarrow> error + 'a list" where
  "collect_results [] = Inr []"
| "collect_results (r # rs) =
     (case r of
        Inl e \<Rightarrow> Inl e
      | Inr v \<Rightarrow> (case collect_results rs of Inl e \<Rightarrow> Inl e | Inr vs \<Rightarrow> Inr (v # vs)))"

subsection \<open>Strings\<close>

definition is_digit :: "char \<Rightarrow> bool" where
  "is_digit c = (c \<in> set ''0123456789'')"

definition is_lower :: "char \<Rightarrow> bool" where
  "is_lower c = (c \<in> set ''abcdefghijklmnopqrstuvwxyz'')"

definition is_upper :: "char \<Rightarrow> bool" where
  "is_upper c = (c \<in> set ''ABCDEFGHIJKLMNOPQRSTUVWXYZ'')"

text \<open>The class \<open>\w\<close>.\<close>

definition is_word :: "char \<Rightarrow> bool" where
  "is_word c = (is_lower c \<or> is_upper c \<or> is_digit c \<or> c = CHR ''_'')"

text \<open>What \<open>str.strip()\<close> removes.\<close>

definition is_space :: "char \<Rightarrow> bool" where
  "is_space c = (c \<in> set [CHR '' '', CHR 0x09, CHR 0x0A, CHR 0x0B, CHR 0x0C, CHR 0x0D,
                           CHR 0x1C, CHR 0x1D, CHR 0x1E, CHR 0x1F])"

definition strip :: "string \<Rightarrow> string" where
  "strip s = rev (dropWhile is_space (rev (dropWhile is_space s)))"

definition startswith :: "string \<Rightarrow> string \<Rightarrow> bool" where
  "startswith s p = (take (length p) s = p)"

definition endswith :: "string \<Rightarrow> string \<Rightarrow> bool" where
  "endswith s p = (length p \<le> length s \<and> drop (length s - length p) s = p)"

text \<open>\<open>s.replace(old, '')\<close> for a non-empty \<open>old\<close>: every occurrence, left to right.\<close>

function remove_all :: "string \<Rightarrow> string \<Rightarrow> string" where
  "remove_all old [] = []"
| "remove_all old (c # cs) =
     (if old \<noteq> [] \<and> startswith (c # cs) old
      then remove_all old (drop (length old) (c # cs))
      else c # remove_all old cs)"
  by pat_completeness auto
termination
  by (relation "measure (\<lambda>(old, s). length s)") (auto simp: startswith_def)

text \<open>\<open>s.split(sep)\<close> for a one-character separator.\<close>

function split_char :: "char \<Rightarrow> string \<Rightarrow> string list" where
  "split_char sep s =
     (case dropWhile (\<lambda>c. c \<noteq> sep) s of
        [] \<Rightarrow> [s]
      | c # rest \<Rightarrow> takeWhile (\<lambda>c. c \<noteq> sep) s # split_char sep rest)"
  by pat_completeness auto
termination
proof (relation "measure (\<lambda>(sep, s). length s)")
  show "wf (measure (\<lambda>(sep, s). length s))" by simp
next
  fix sep :: char and s :: string and c rest
  assume "dropWhile (\<lambda>c. c \<noteq> sep) s = c # rest"
  then have "length (c # rest) \<le> length s"
    using length_dropWhile_le [of "\<lambda>c. c \<noteq> sep" s] by simp
  then show "((sep, rest), (sep, s)) \<in> measure (\<lambda>(sep, s). length s)" by simp
qed

text \<open>\<open>int(s)\<close> for a string of decimal digits.\<close>

definition digit_value :: "char \<Rightarrow> nat" where
  "digit_value c = of_char c - 48"

definition int_of_digits :: "string \<Rightarrow> nat" where
  "int_of_digits s = foldl (\<lambda>n c. 10 * n + digit_value c) 0 s"

text \<open>Python's order on strings: lexicographic on the code points.\<close>

fun str_lt :: "string \<Rightarrow> string \<Rightarrow> bool" where
  "str_lt [] [] = False"
| "str_lt [] (d # ds) = True"
| "str_lt (c # cs) [] = False"
| "str_lt (c # cs) (d # ds) =
     (if c = d then str_lt cs ds else (of_char c :: nat) < of_char d)"

subsection \<open>\<open>distutils.version.LooseVersion\<close>\<close>

text \<open>
  The program orders versions with the standard library's \<open>LooseVersion\<close>. Its parser
  splits the string with the pattern \<open>(\d+ | [a-z]+ | \.)\<close>, drops the empty pieces
  and the dots, and turns the digit runs into integers. Its comparison compares the
  two component lists as Python lists: the first pair of unequal components decides,
  and an integer against a string raises \<open>TypeError\<close>. A \<open>LooseVersion\<close> made from
  an empty string was never parsed and has no \<open>version\<close> attribute.
\<close>

datatype component = CInt nat | CStr string

datatype loose_version = Version "component list" | NoVersion

datatype char_kind = KDigit | KLower | KDot | KOther

definition kind_of :: "char \<Rightarrow> char_kind" where
  "kind_of c =
     (if is_digit c then KDigit else if is_lower c then KLower
      else if c = CHR ''.'' then KDot else KOther)"

function split_components :: "string \<Rightarrow> string list" where
  "split_components [] = []"
| "split_components (c # cs) =
     (if c = CHR ''.'' then split_components cs
      else (c # takeWhile (\<lambda>d. kind_of d = kind_of c) cs)
           # split_components (dropWhile (\<lambda>d. kind_of d = kind_of c) cs))"
  by pat_completeness auto
termination
  by (relation "measure length") (auto simp: length_dropWhile_le less_Suc_eq_le)

definition to_component :: "string \<Rightarrow> component" where
  "to_component s = (if s \<noteq> [] \<and> list_all is_digit s then CInt (int_of_digits s) else CStr s)"

definition LooseVersion :: "string \<Rightarrow> loose_version" where
  "LooseVersion vstring =
     (if vstring = [] then NoVersion
      else Version (map to_component (split_components vstring)))"

fun component_lt :: "component \<Rightarrow> component \<Rightarrow> error + bool" where
  "component_lt (CInt a) (CInt b) = Inr (a < b)"
| "component_lt (CStr a) (CStr b) = Inr (str_lt a b)"
| "component_lt (CInt a) (CStr b) = Inl TypeError"
| "component_lt (CStr a) (CInt b) = Inl TypeError"

text \<open>\<open>a < b\<close> on two Python lists.\<close>

fun list_lt :: "component list \<Rightarrow> component list \<Rightarrow> error + bool" where
  "list_lt [] [] = Inr False"
| "list_lt [] (y # ys) = Inr True"
| "list_lt (x # xs) [] = Inr False"
| "list_lt (x # xs) (y # ys) = (if x = y then list_lt xs ys else component_lt x y)"

text \<open>
  \<open>LooseVersion._cmp\<close>: 0, -1 or 1; the method falls off its end (returns \<open>None\<close>)
  when none of its three tests holds. Its third test, \<open>a > b\<close> on two lists, is
  \<open>b < a\<close>.
\<close>

fun version_cmp :: "loose_version \<Rightarrow> loose_version \<Rightarrow> error + int option" where
  "version_cmp (Version a) (Version b) =
     (if a = b then Inr (Some 0)
      else bind_res (list_lt a b) (\<lambda>lt.
        if lt then Inr (Some (- 1))
        else bind_res (list_lt b a) (\<lambda>gt.
          if gt then Inr (Some 1) else Inr None)))"
| "version_cmp NoVersion w = Inl AttributeError"
| "version_cmp (Version a) NoVersion = Inl AttributeError"

text \<open>
  The rich comparisons of \<open>distutils.version.Version\<close>: each tests the result of
  \<open>_cmp\<close> against 0. An ordering test of \<open>None\<close> against 0 raises \<open>TypeError\<close>;
  \<open>None == 0\<close> is false. \<open>!=\<close> is the negation of \<open>==\<close>.
\<close>

definition version_eq :: "loose_version \<Rightarrow> loose_version \<Rightarrow> error + bool" where
  "version_eq v w = bind_res (version_cmp v w) (\<lambda>c. Inr (c = Some 0))"

definition version_ne :: "loose_version \<Rightarrow> loose_version \<Rightarrow> error + bool" where
  "version_ne v w = bind_res (version_eq v w) (\<lambda>b. Inr (\<not> b))"

definition version_test :: "(int \<Rightarrow> bool) \<Rightarrow> loose_version \<Rightarrow> loose_version \<Rightarrow> error + bool" where
  "version_test p v w =
     bind_res (version_cmp v w) (\<lambda>c. case c of None \<Rightarrow> Inl TypeError | Some i \<Rightarrow> Inr (p i))"

definition version_ge :: "loose_version \<Rightarrow> loose_version \<Rightarrow> error + bool" where
  "version_ge = version_test (\<lambda>c. c \<ge> 0)"

definition version_gt :: "loose_version \<Rightarrow> loose_version \<Rightarrow> error + bool" where
  "version_gt = version_test (\<lambda>c. c > 0)"

definition version_le :: "loose_version \<Rightarrow> loose_version \<Rightarrow> error + bool" where
  "version_le = version_test (\<lambda>c. c \<le> 0)"

definition version_lt :: "loose_version \<Rightarrow> loose_version \<Rightarrow> error + bool" where
  "version_lt = version_test (\<lambda>c. c < 0)"

subsection \<open>The requests\<close>

text \<open>
  \<open>VersionRequirement = namedtuple(version, operator)\<close> with the defaults
  \<open>(None, '==')\<close>, and \<open>InstallModule = namedtuple(name, version_requirements)\<close>
  with the defaults \<open>(None, [])\<close>.
\<close>

record VersionRequirement =
  version :: "loose_version option"
  operator :: string

record InstallModule =
  name :: string
  version_requirements :: "VersionRequirement list"

definition InstallModule1 :: "string \<Rightarrow> InstallModule" where
  "InstallModule1 n = \<lparr>name = n, version_requirements = []\<rparr>"

subsection \<open>\<open>compare_version\<close> and \<open>is_match_version\<close>\<close>

definition compare_version ::
  "loose_version \<Rightarrow> loose_version option \<Rightarrow> string \<Rightarrow> error + bool" where
  "compare_version target_version require_version op =
     (case require_version of
        None \<Rightarrow> Inr True
      | Some req \<Rightarrow>
          if op = [] \<or> op = ''=='' then version_eq target_version req
          else if op = ''!='' then version_ne target_version req
          else if op = ''>='' then version_ge target_version req
          else if op = ''>'' then version_gt target_version req
          else if op = ''<='' then version_le target_version req
          else if op = ''<'' then version_lt target_version req
          else Inr False)"

definition is_match_version ::
  "loose_version \<Rightarrow> VersionRequirement list \<Rightarrow> error + bool" where
  "is_match_version target_version reqs =
     (if reqs = [] then Inr True
      else bind_res
        (collect_results
           (map (\<lambda>req. compare_version target_version (version req) (operator req)) reqs))
        (\<lambda>bs. Inr (list_all (\<lambda>b. b) bs)))"

subsection \<open>Python values\<close>

text \<open>
  The values \<open>json.loads\<close> produces; \<open>JNull\<close> is Python's \<open>None\<close>. A dictionary
  lists its items in order, each key once.
\<close>

datatype json =
    JNull
  | JBool bool
  | JInt int
  | JFloat real
  | JStr string
  | JList "json list"
  | JDict "(string \<times> json) list"

fun truthy :: "json \<Rightarrow> bool" where
  "truthy JNull = False"
| "truthy (JBool b) = b"
| "truthy (JInt i) = (i \<noteq> 0)"
| "truthy (JFloat r) = (r \<noteq> 0)"
| "truthy (JStr s) = (s \<noteq> [])"
| "truthy (JList xs) = (xs \<noteq> [])"
| "truthy (JDict kvs) = (kvs \<noteq> [])"

text \<open>\<open>xs[i]\<close> on a sequence: a negative index counts from the end.\<close>

definition seq_index :: "'a list \<Rightarrow> int \<Rightarrow> error + 'a" where
  "seq_index xs i =
     (if 0 \<le> i \<and> i < int (length xs) then Inr (xs ! nat i)
      else if i < 0 \<and> - int (length xs) \<le> i then Inr (xs ! nat (int (length xs) + i))
      else Inl IndexError)"

text \<open>
  \<open>obj[key]\<close>. The keys of a parsed dictionary are strings, so another hashable key
  is missing (\<open>KeyError\<close>) and a list or a dictionary as key is unhashable
  (\<open>TypeError\<close>); \<open>True\<close> and \<open>False\<close> index a sequence as 1 and 0.
\<close>

fun getitem :: "json \<Rightarrow> json \<Rightarrow> error + json" where
  "getitem (JDict kvs) (JStr k) = (case map_of kvs k of Some v \<Rightarrow> Inr v | None \<Rightarrow> Inl KeyError)"
| "getitem (JDict kvs) (JList k) = Inl TypeError"
| "getitem (JDict kvs) (JDict k) = Inl TypeError"
| "getitem (JDict kvs) k = Inl KeyError"
| "getitem (JList xs) (JInt i) = seq_index xs i"
| "getitem (JList xs) (JBool b) = seq_index xs (if b then 1 else 0)"
| "getitem (JStr s) (JInt i) = bind_res (seq_index s i) (\<lambda>c. Inr (JStr [c]))"
| "getitem (JStr s) (JBool b) = bind_res (seq_index s (if b then 1 else 0)) (\<lambda>c. Inr (JStr [c]))"
| "getitem obj k = Inl TypeError"

text \<open>\<open>for x in obj\<close>: the elements of a list, the keys of a dictionary, the characters of a string.\<close>

fun py_iter :: "json \<Rightarrow> error + json list" where
  "py_iter (JList xs) = Inr xs"
| "py_iter (JDict kvs) = Inr (map (\<lambda>kv. JStr (fst kv)) kvs)"
| "py_iter (JStr s) = Inr (map (\<lambda>c. JStr [c]) s)"
| "py_iter obj = Inl TypeError"

subsection \<open>The environment and the state\<close>

text \<open>
  What the program reads from outside is a parameter:
  \<^item> \<open>curl_response\<close>: the text \<open>curl -s https://pypi.org/pypi/<name>/json\<close> prints,
    given the names requested before and the name requested now;
  \<^item> \<open>json_loads\<close>: \<open>json.loads\<close>, \<open>None\<close> where it raises \<open>JSONDecodeError\<close>;
  \<^item> \<open>wheel_supported\<close>: pip's \<open>Wheel(fname).supported()\<close>;
  \<^item> \<open>cache_dir\<close>: the constant \<open>CACHE_DIR\<close>;
  \<^item> \<open>zip_lines\<close>: the decoded lines of a member of a zip archive;
  \<^item> \<open>archive_members\<close>: the member names of a source archive, in order;
  \<^item> \<open>member_lines\<close>: the lines of a member of a source archive once extracted.

  The state holds \<open>self._api_cache\<close> and the names requested from the index so far.
  The scratch directories and \<open>self._extract_dirs\<close> are written by the source
  strategy and read by the installation step only; they are left out. The model is of
  the calls that \<open>start\<close> makes inside its \<open>with tempfile.TemporaryDirectory()\<close>
  block, where \<open>self._tmp_dir\<close> is set.
\<close>

record env =
  curl_response :: "string list \<Rightarrow> string \<Rightarrow> string"
  json_loads :: "string \<Rightarrow> json option"
  wheel_supported :: "json \<Rightarrow> error + bool"
  cache_dir :: string
  zip_lines :: "string \<Rightarrow> string \<Rightarrow> error + string list"
  archive_members :: "string \<Rightarrow> error + string list"
  member_lines :: "string \<Rightarrow> string \<Rightarrow> error + string list"

record state =
  api_cache :: "string \<rightharpoonup> json"
  requests :: "string list"

subsection \<open>\<open>find_module_file\<close>\<close>

fun find_module_loop :: "env \<Rightarrow> json list \<Rightarrow> string \<Rightarrow> error + json" where
  "find_module_loop env [] package_type = Inr JNull"
| "find_module_loop env (file_info # rest) package_type =
     bind_res (getitem file_info (JStr ''packagetype'')) (\<lambda>pt.
       if pt \<noteq> JStr package_type then find_module_loop env rest package_type
       else
         bind_res (getitem file_info (JStr ''url'')) (\<lambda>url.
         bind_res (getitem file_info (JStr ''filename'')) (\<lambda>fname.
         bind_res (getitem file_info (JStr ''python_version'')) (\<lambda>python_version.
           if package_type = ''sdist'' \<and> python_version = JStr ''source'' then Inr url
           else bind_res (wheel_supported env fname) (\<lambda>supported.
             if supported then Inr url else find_module_loop env rest package_type)))))"

definition find_module_file :: "env \<Rightarrow> json \<Rightarrow> string \<Rightarrow> error + json" where
  "find_module_file env module_objs package_type =
     bind_res (py_iter module_objs) (\<lambda>objs. find_module_loop env objs package_type)"

definition find_whl :: "env \<Rightarrow> json \<Rightarrow> error + json" where
  "find_whl env module_objs = find_module_file env module_objs ''bdist_wheel''"

definition find_source :: "env \<Rightarrow> json \<Rightarrow> error + json" where
  "find_source env module_objs = find_module_file env module_objs ''sdist''"

subsection \<open>\<open>get_project_json\<close>\<close>

text \<open>
  \<open>self._301_filter = re.compile(r'/pypi/([\w\.\-\_]+)/json;')\<close>. No character of
  the group's class is a slash, so the group is the whole run of such characters
  after \<open>/pypi/\<close>. \<open>search_301\<close> is \<open>self._301_filter.search\<close>: the leftmost
  match, and its group 1.
\<close>

definition is_301_char :: "char \<Rightarrow> bool" where
  "is_301_char c = (is_word c \<or> c = CHR ''.'' \<or> c = CHR ''-'')"

definition match_301_at :: "string \<Rightarrow> string option" where
  "match_301_at s =
     (if startswith s ''/pypi/'' then
        (let r = drop 6 s;
             g = takeWhile is_301_char r
         in if g \<noteq> [] \<and> startswith (dropWhile is_301_char r) ''/json;'' then Some g else None)
      else None)"

fun search_301 :: "string \<Rightarrow> string option" where
  "search_301 [] = None"
| "search_301 (c # cs) =
     (case match_301_at (c # cs) of Some g \<Rightarrow> Some g | None \<Rightarrow> search_301 cs)"

definition get_response :: "env \<Rightarrow> state \<Rightarrow> string \<Rightarrow> string \<times> state" where
  "get_response env s module_name =
     (curl_response env (requests s) module_name, s\<lparr>requests := requests s @ [module_name]\<rparr>)"

definition text2json :: "env \<Rightarrow> string \<Rightarrow> json" where
  "text2json env text = (case json_loads env text of Some v \<Rightarrow> v | None \<Rightarrow> JStr text)"

definition check_301_text :: "json \<Rightarrow> bool" where
  "check_301_text text = (case text of JStr t \<Rightarrow> search_301 t \<noteq> None | _ \<Rightarrow> False)"

definition check_301_json :: "json \<Rightarrow> bool" where
  "check_301_json obj =
     (case obj of
        JDict kvs \<Rightarrow>
          (case map_of kvs ''code'' of
             Some c \<Rightarrow> c = JStr ''301 Moved Permanently''
           | None \<Rightarrow> False)
      | _ \<Rightarrow> False)"

text \<open>\<open>self._301_filter.search(x)\<close> raises \<open>TypeError\<close> when \<open>x\<close> is not a string.\<close>

definition fix_301_text :: "env \<Rightarrow> state \<Rightarrow> json \<Rightarrow> (error + json) \<times> state" where
  "fix_301_text env s text =
     (case text of
        JStr t \<Rightarrow>
          (case search_301 t of
             Some g \<Rightarrow> (let (t', s') = get_response env s g in (Inr (text2json env t'), s'))
           | None \<Rightarrow> (Inr (text2json env t), s))
      | _ \<Rightarrow> (Inl TypeError, s))"

text \<open>
  \<open>fix_301_json\<close> requests the whole of \<open>obj['message']\<close>, not the group of the match.
\<close>

definition fix_301_json :: "env \<Rightarrow> state \<Rightarrow> json \<Rightarrow> (error + json) \<times> state" where
  "fix_301_json env s obj =
     (case getitem obj (JStr ''message'') of
        Inl e \<Rightarrow> (Inl e, s)
      | Inr (JStr message) \<Rightarrow>
          (case search_301 message of
             Some g \<Rightarrow> (let (t', s') = get_response env s message in (Inr (text2json env t'), s'))
           | None \<Rightarrow> (Inr obj, s))
      | Inr other \<Rightarrow> (Inl TypeError, s))"

definition max_count :: nat where
  "max_count = 20"

text \<open>The \<open>while count < max_count\<close> loop, with its variables \<open>count\<close> and \<open>obj\<close>.\<close>

function redirect_loop :: "env \<Rightarrow> nat \<Rightarrow> state \<Rightarrow> json \<Rightarrow> (error + json) \<times> state" where
  "redirect_loop env count s obj =
     (if count < max_count then
        (if check_301_text obj then
           (case fix_301_text env s obj of
              (Inl e, s') \<Rightarrow> (Inl e, s')
            | (Inr obj', s') \<Rightarrow> redirect_loop env (count + 1) s' obj')
         else if check_301_json obj then
           (case fix_301_json env s obj of
              (Inl e, s') \<Rightarrow> (Inl e, s')
            | (Inr obj', s') \<Rightarrow> redirect_loop env (count + 1) s' obj')
         else (Inr obj, s))
      else (Inr obj, s))"
  by pat_completeness auto
termination
  by (relation "measure (\<lambda>(env, count, s, obj). max_count - count)") auto

definition is_dict :: "json \<Rightarrow> bool" where
  "is_dict obj = (case obj of JDict kvs \<Rightarrow> True | _ \<Rightarrow> False)"

definition get_project_json :: "env \<Rightarrow> state \<Rightarrow> string \<Rightarrow> (error + json) \<times> state" where
  "get_project_json env s project =
     (case api_cache s project of
        Some cached \<Rightarrow> (Inr cached, s)
      | None \<Rightarrow>
          (let (text, s1) = get_response env s project in
           case fix_301_text env s1 (JStr text) of
             (Inl e, s2) \<Rightarrow> (Inl e, s2)
           | (Inr obj, s2) \<Rightarrow>
               (case redirect_loop env 0 s2 obj of
                  (Inl e, s3) \<Rightarrow> (Inl e, s3)
                | (Inr obj', s3) \<Rightarrow>
                    (let response = (if is_dict obj' then obj' else JNull)
                     in (Inr response, s3\<lparr>api_cache := (api_cache s3)(project \<mapsto> response)\<rparr>)))))"

subsection \<open>\<open>get_module_url\<close>\<close>

text \<open>
  \<open>LooseVersion(x)\<close> for a value of the metadata: the constructor parses a true
  argument only, and parsing something that is not a string raises \<open>TypeError\<close>.
\<close>

definition LooseVersion_of :: "json \<Rightarrow> error + loose_version" where
  "LooseVersion_of x =
     (case x of
        JStr vstring \<Rightarrow> Inr (LooseVersion vstring)
      | _ \<Rightarrow> if truthy x then Inl TypeError else Inr NoVersion)"

text \<open>
  \<open>sorted(releases_list, key=..., reverse=True)\<close>: descending by the key, and stable
  (entries with equal keys keep their order). \<open>insert_desc\<close> puts an entry behind
  every entry whose key is not smaller.
\<close>

fun insert_desc ::
  "loose_version \<times> json \<Rightarrow> (loose_version \<times> json) list \<Rightarrow> (loose_version \<times> json) list" where
  "insert_desc x [] = [x]"
| "insert_desc x (y # ys) =
     (if version_lt (fst y) (fst x) = Inr True then x # y # ys else y # insert_desc x ys)"

definition sorted_desc :: "(loose_version \<times> json) list \<Rightarrow> (loose_version \<times> json) list" where
  "sorted_desc xs = foldl (\<lambda>acc x. insert_desc x acc) [] xs"

definition comparable :: "loose_version \<Rightarrow> loose_version \<Rightarrow> bool" where
  "comparable v w = (case version_lt v w of Inl e \<Rightarrow> False | Inr b \<Rightarrow> True)"

text \<open>
  \<open>sort_releases\<close>. Sorting two or more entries compares their keys with \<open><\<close>,
  which raises for a version that was never parsed (\<open>AttributeError\<close>) and for two
  versions whose first unequal components are an integer and a string
  (\<open>TypeError\<close>). A comparison sort has to compare two such keys at some point,
  since their order decides its result. The keys of a dictionary are distinct, so at
  most one key, the empty string, is unparsed: where every failing pair holds that
  key the sort raises \<open>AttributeError\<close>, and where no key is unparsed it raises
  \<open>TypeError\<close>. Where both kinds of failing pairs are present, which comparison
  comes first depends on the sorting algorithm; the model reports \<open>TypeError\<close> there.
\<close>

definition sort_releases :: "json \<Rightarrow> error + (loose_version \<times> json) list" where
  "sort_releases releases =
     (case releases of
        JDict items \<Rightarrow>
          (let releases_list = map (\<lambda>(ver, release). (LooseVersion ver, release)) items;
               keys = map fst releases_list;
               parsed = filter (\<lambda>v. v \<noteq> NoVersion) keys
           in if length releases_list \<le> 1 then Inr releases_list
              else if list_all (\<lambda>v. list_all (comparable v) keys) keys
              then Inr (sorted_desc releases_list)
              else if list_all (\<lambda>v. list_all (comparable v) parsed) parsed
              then Inl AttributeError
              else Inl TypeError)
      | _ \<Rightarrow> Inl AttributeError)"

text \<open>The dictionary \<open>finders\<close> of \<open>get_url\<close>; \<open>file_type\<close> is \<open>'whl'\<close> or \<open>'source'\<close>.\<close>

definition finders :: "env \<Rightarrow> string \<Rightarrow> json \<Rightarrow> error + json" where
  "finders env file_type module_objs =
     (if file_type = ''whl'' then find_whl env module_objs
      else if file_type = ''source'' then find_source env module_objs
      else Inl KeyError)"

text \<open>The \<open>for version, release in sort_releases(...)\<close> loop of \<open>get_url\<close>.\<close>

fun releases_loop ::
  "env \<Rightarrow> InstallModule \<Rightarrow> string \<Rightarrow> (loose_version \<times> json) list \<Rightarrow> error + json" where
  "releases_loop env modul file_type [] = Inr JNull"
| "releases_loop env modul file_type ((ver, release) # rest) =
     bind_res (is_match_version ver (version_requirements modul)) (\<lambda>ok.
       if \<not> ok then releases_loop env modul file_type rest
       else bind_res (finders env file_type release) (\<lambda>url.
         if truthy url then Inr url else releases_loop env modul file_type rest))"

definition get_url :: "env \<Rightarrow> InstallModule \<Rightarrow> json \<Rightarrow> string \<Rightarrow> error + json" where
  "get_url env modul project_obj file_type =
     bind_res (getitem project_obj (JStr ''info'')) (\<lambda>info.
     bind_res (getitem info (JStr ''version'')) (\<lambda>latest_version.
     bind_res (LooseVersion_of latest_version) (\<lambda>latest.
     bind_res (is_match_version latest (version_requirements modul)) (\<lambda>ok.
     bind_res
       (if ok then
          bind_res (getitem project_obj (JStr ''releases'')) (\<lambda>releases.
          bind_res (getitem releases latest_version) (\<lambda>module_objs.
            finders env file_type module_objs))
        else Inr JNull) (\<lambda>url.
     if truthy url then Inr url
     else
       bind_res (getitem project_obj (JStr ''urls'')) (\<lambda>urls.
       bind_res (finders env file_type urls) (\<lambda>url.
       if truthy url then Inr url
       else
         bind_res (getitem project_obj (JStr ''releases'')) (\<lambda>releases.
         bind_res (sort_releases releases) (\<lambda>sorted_releases.
           releases_loop env modul file_type sorted_releases)))))))))"

text \<open>
  \<open>get_module_url\<close>. \<open>sys.exit(1)\<close> raises \<open>SystemExit(1)\<close>; nothing in the program
  catches it.
\<close>

definition get_module_url :: "env \<Rightarrow> state \<Rightarrow> InstallModule \<Rightarrow> (error + json) \<times> state" where
  "get_module_url env s modul =
     (case get_project_json env s (name modul) of
        (Inl e, s1) \<Rightarrow> (Inl e, s1)
      | (Inr project, s1) \<Rightarrow>
          if \<not> truthy project then (Inl (SystemExit 1), s1)
          else
            (bind_res (get_url env modul project ''whl'') (\<lambda>whl_url.
               if truthy whl_url then Inr whl_url
               else get_url env modul project ''source''), s1))"

subsection \<open>\<open>download_module\<close>\<close>

text \<open>\<open>p[p.rfind('/') + 1:]\<close>: \<open>os.path.basename(p)\<close>, and \<open>p.split('/')[-1]\<close>.\<close>

definition after_last_slash :: "string \<Rightarrow> string" where
  "after_last_slash p = rev (takeWhile (\<lambda>c. c \<noteq> CHR ''/'') (rev p))"

text \<open>\<open>os.path.join(a, b)\<close> of \<open>posixpath\<close>, for two components.\<close>

definition path_join :: "string \<Rightarrow> string \<Rightarrow> string" where
  "path_join a b =
     (if startswith b ''/'' then b
      else if a = [] \<or> endswith a ''/'' then a @ b
      else a @ ''/'' @ b)"

text \<open>
  \<open>download_module\<close> returns the path in the cache directory, whether the file was
  there or had to be fetched; the transfer itself (\<open>curl -o\<close>) is an effect on the
  file system that nothing below reads. A true URL that is not a string has no
  \<open>split\<close> (\<open>AttributeError\<close>).
\<close>

definition download_module ::
  "env \<Rightarrow> state \<Rightarrow> InstallModule \<Rightarrow> (error + string option) \<times> state" where
  "download_module env s modul =
     (case get_module_url env s modul of
        (Inl e, s1) \<Rightarrow> (Inl e, s1)
      | (Inr url, s1) \<Rightarrow>
          if \<not> truthy url then (Inr None, s1)
          else
            (case url of
               JStr u \<Rightarrow> (Inr (Some (path_join (cache_dir env) (after_last_slash u))), s1)
             | _ \<Rightarrow> (Inl AttributeError, s1)))"

subsection \<open>\<open>get_whl_dependencies\<close>\<close>

definition deps_label :: string where
  "deps_label = ''Requires-Dist:''"

text \<open>
  \<open>module_filter\<close> is the pattern \<open>^([\w\[\]\-]+) \(([<>=!\w.,]+)\)$\<close> (the source escapes every character of the second class). The
  character after each group is outside the group's class, so each group is the whole
  run of its class. \<open>$\<close> matches at the end of the string and before a final newline.
\<close>

definition is_name_char :: "char \<Rightarrow> bool" where
  "is_name_char c = (is_word c \<or> c \<in> set ''[]-'')"

definition is_spec_char :: "char \<Rightarrow> bool" where
  "is_spec_char c = (is_word c \<or> c \<in> set ''<>=!.,'')"

definition at_end :: "string \<Rightarrow> bool" where
  "at_end r = (r = [] \<or> r = [CHR 0x0A])"

definition whl_module_filter :: "string \<Rightarrow> (string \<times> string) option" where
  "whl_module_filter dep =
     (let n = takeWhile is_name_char dep;
          r = dropWhile is_name_char dep
      in if n \<noteq> [] \<and> startswith r '' ('' then
           (let r2 = drop 2 r;
                v = takeWhile is_spec_char r2;
                r3 = dropWhile is_spec_char r2
            in if v \<noteq> [] \<and> startswith r3 '')'' \<and> at_end (drop 1 r3) then Some (n, v) else None)
         else None)"

text \<open>
  \<open>version_filter\<close> is the pattern \<open>([<>=!]+)([\w.]+)\<close>, used with \<open>search\<close>:
  the leftmost run of operator characters that a version character follows.
\<close>

definition is_op_char :: "char \<Rightarrow> bool" where
  "is_op_char c = (c \<in> set ''<>=!'')"

definition is_ver_char :: "char \<Rightarrow> bool" where
  "is_ver_char c = (is_word c \<or> c = CHR ''.'')"

definition match_version_at :: "string \<Rightarrow> (string \<times> string) option" where
  "match_version_at s =
     (let op = takeWhile is_op_char s;
          v = takeWhile is_ver_char (dropWhile is_op_char s)
      in if op \<noteq> [] \<and> v \<noteq> [] then Some (op, v) else None)"

fun version_filter_search :: "string \<Rightarrow> (string \<times> string) option" where
  "version_filter_search [] = None"
| "version_filter_search (c # cs) =
     (case match_version_at (c # cs) of
        Some m \<Rightarrow> Some m
      | None \<Rightarrow> version_filter_search cs)"

text \<open>\<open>all([s not in '()!=<>' for s in dep])\<close>\<close>

definition no_punctuation :: "string \<Rightarrow> bool" where
  "no_punctuation dep = list_all (\<lambda>s. s \<notin> set ''()!=<>'') dep"

text \<open>
  The inner \<open>dep2module\<close> of \<open>get_whl_dependencies\<close>. \<open>name.split('[')[0]\<close> is the
  part of the name before its first bracket.
\<close>

definition whl_dep2module :: "string \<Rightarrow> InstallModule option" where
  "whl_dep2module line =
     (let dep = strip (remove_all deps_label line) in
      case whl_module_filter dep of
        None \<Rightarrow> if no_punctuation dep then Some (InstallModule1 dep) else None
      | Some (group1, group2) \<Rightarrow>
          (let nm = (if CHR ''['' \<in> set group1
                       then takeWhile (\<lambda>c. c \<noteq> CHR ''['') group1 else group1);
               versions = map version_filter_search (split_char CHR '','' group2)
           in Some \<lparr>name = nm,
                    version_requirements =
                      concat (map (\<lambda>v. case v of
                                     None \<Rightarrow> []
                                   | Some (op, ver) \<Rightarrow>
                                       [\<lparr>version = Some (LooseVersion ver), operator = op\<rparr>])
                               versions)\<rparr>))"

text \<open>The loop over the lines of \<open>METADATA\<close>.\<close>

definition whl_lines_deps :: "string list \<Rightarrow> InstallModule option list" where
  "whl_lines_deps lines = map whl_dep2module (filter (\<lambda>line. startswith line deps_label) lines)"

definition get_whl_dependencies :: "env \<Rightarrow> string \<Rightarrow> error + InstallModule option list" where
  "get_whl_dependencies env whl =
     (case split_char CHR ''-'' (after_last_slash whl) of
        nm # ver # others \<Rightarrow>
          bind_res (zip_lines env whl (nm @ ''-'' @ ver @ ''.dist-info/METADATA''))
            (\<lambda>lines. Inr (whl_lines_deps lines))
      | _ \<Rightarrow> Inl IndexError)"

subsection \<open>\<open>get_source_dependencies\<close>\<close>

text \<open>Here \<open>module_filter\<close> is the pattern \<open>^([\w\[\]\-]+)([<>=]+)([\w.]+)$\<close>.\<close>

definition is_cmp_char :: "char \<Rightarrow> bool" where
  "is_cmp_char c = (c \<in> set ''<>='')"

definition source_module_filter :: "string \<Rightarrow> (string \<times> string \<times> string) option" where
  "source_module_filter dep =
     (let n = takeWhile is_name_char dep;
          r = dropWhile is_name_char dep;
          op = takeWhile is_cmp_char r;
          r2 = dropWhile is_cmp_char r;
          v = takeWhile is_ver_char r2;
          r3 = dropWhile is_ver_char r2
      in if n \<noteq> [] \<and> op \<noteq> [] \<and> v \<noteq> [] \<and> at_end r3 then Some (n, op, v) else None)"

text \<open>
  The inner \<open>dep2module\<close> of \<open>get_source_dependencies\<close>. It computes a \<open>name\<close>
  without the bracketed part, and then builds the request from \<open>res.group(1)\<close>.
\<close>

definition source_dep2module :: "string \<Rightarrow> InstallModule option" where
  "source_dep2module dep =
     (case source_module_filter dep of
        None \<Rightarrow> if no_punctuation dep then Some (InstallModule1 dep) else None
      | Some (group1, group2, group3) \<Rightarrow>
          Some \<lparr>name = group1,
                version_requirements =
                  [\<lparr>version = Some (LooseVersion group3), operator = group2\<rparr>]\<rparr>)"

text \<open>\<open>parse_requirements\<close>, from the lines of the file as read.\<close>

definition parse_requirements :: "string list \<Rightarrow> InstallModule list" where
  "parse_requirements raw_lines =
     (let modules =
            map source_dep2module
              (filter (\<lambda>line. line \<noteq> [] \<and> \<not> startswith line ''#'' \<and> \<not> startswith line ''['')
                 (map strip raw_lines))
      in concat (map (\<lambda>m. case m of None \<Rightarrow> [] | Some x \<Rightarrow> [x]) modules))"

text \<open>
  The second component of \<open>os.path.splitext(p)\<close>: the extension starts at the last
  dot of the last path component, unless only dots stand before it there.
\<close>

definition splitext_ext :: "string \<Rightarrow> string" where
  "splitext_ext p =
     (let b = after_last_slash p;
          stem = rev (drop 1 (dropWhile (\<lambda>c. c \<noteq> CHR ''.'') (rev b)))
      in if CHR ''.'' \<in> set b \<and> list_ex (\<lambda>c. c \<noteq> CHR ''.'') stem
         then drop (length stem) b else [])"

definition req_end_path :: string where
  "req_end_path = ''.egg-info/requires.txt''"

text \<open>
  \<open>get_source_dependencies\<close>. Both branches (\<open>.gz\<close> and \<open>.zip\<close>) look for the first
  member whose name ends with \<open>req_end_path\<close> and extract everything; the scratch
  directory is empty afterwards exactly when the archive has no member.
\<close>

definition get_source_dependencies :: "env \<Rightarrow> string \<Rightarrow> error + InstallModule option list" where
  "get_source_dependencies env source =
     (let ext = splitext_ext source in
      if ext \<noteq> ''.gz'' \<and> ext \<noteq> ''.zip'' then Inr []
      else
        bind_res (archive_members env source) (\<lambda>members.
          if members = [] then Inr []
          else
            (case find (\<lambda>member. endswith member req_end_path) members of
               None \<Rightarrow> Inr []
             | Some requires_rel_path \<Rightarrow>
                 bind_res (member_lines env source requires_rel_path)
                   (\<lambda>lines. Inr (map Some (parse_requirements lines))))))"

definition get_dependencies :: "env \<Rightarrow> string \<Rightarrow> error + InstallModule option list" where
  "get_dependencies env module_file =
     (if splitext_ext module_file = ''.whl'' then get_whl_dependencies env module_file
      else get_source_dependencies env module_file)"

subsection \<open>\<open>clean_duplicated_files\<close>\<close>

text \<open>The loop of \<open>clean_duplicated_files\<close>, with its two variables \<open>result\<close> and \<open>cache\<close>.\<close>

fun clean_loop :: "string list \<Rightarrow> string list \<Rightarrow> string set \<Rightarrow> string list" where
  "clean_loop [] result cache = result"
| "clean_loop (fpath # rest) result cache =
     (if fpath \<in> cache then clean_loop rest result cache
      else clean_loop rest (result @ [fpath]) (insert fpath cache))"

definition clean_duplicated_files :: "string list \<Rightarrow> string list" where
  "clean_duplicated_files module_files = clean_loop module_files [] {}"

subsection \<open>\<open>get_module_recursive\<close>\<close>

text \<open>
  An element of \<open>module_files\<close>: the pair \<open>(module_file, depth)\<close>, or a path alone, as
  a call with \<open>depth >= 0\<close> returns them.
\<close>

datatype entry = Tup string int | Str string

fun tuples_of :: "entry list \<Rightarrow> (string \<times> int) list option" where
  "tuples_of [] = Some []"
| "tuples_of (Tup p d # es) = (case tuples_of es of None \<Rightarrow> None | Some ts \<Rightarrow> Some ((p, d) # ts))"
| "tuples_of (Str p # es) = None"

definition is_short_str :: "entry \<Rightarrow> bool" where
  "is_short_str e = (case e of Str p \<Rightarrow> length p < 2 | Tup p d \<Rightarrow> False)"

text \<open>
  The end of \<open>get_module_recursive\<close> for \<open>depth >= 0\<close>:
  \<open>module_files.sort(key=lambda e:e[1])\<close>, a stable sort, then
  \<open>clean_duplicated_files([e[0] for e in module_files])\<close>. The first element is the
  call's own pair. Where the rest holds a path (the results of a call with
  \<open>depth >= 0\<close>), \<open>e[1]\<close> is its second character: \<open>IndexError\<close> for a path shorter
  than that, and otherwise \<open>TypeError\<close> from comparing it with the integer.
\<close>

definition sort_and_clean :: "string \<Rightarrow> int \<Rightarrow> entry list \<Rightarrow> error + entry list" where
  "sort_and_clean module_file depth rest =
     (case tuples_of rest of
        Some ts \<Rightarrow>
          Inr (map Str (clean_duplicated_files (map fst (sort_key snd ((module_file, depth) # ts)))))
      | None \<Rightarrow> if list_ex is_short_str rest then Inl IndexError else Inl TypeError)"

text \<open>
  \<open>get_module_recursive\<close> calls itself for every dependency and nothing bounds the
  depth of these calls, so the model counts them down from \<open>fuel\<close>; \<open>None\<close> says
  that the fuel ran out. \<open>deps_loop\<close> is the \<open>for dep in deps\<close> loop; its
  accumulator \<open>found\<close> is \<open>module_files\<close> without its first element, the call's own
  pair. A dependency that yields no files adds nothing (the source prints a message
  and goes on).
\<close>

fun get_module_recursive ::
    "nat \<Rightarrow> env \<Rightarrow> state \<Rightarrow> InstallModule \<Rightarrow> int \<Rightarrow> ((error + entry list) \<times> state) option"
  and deps_loop ::
    "nat \<Rightarrow> env \<Rightarrow> state \<Rightarrow> InstallModule option list \<Rightarrow> int \<Rightarrow> entry list
       \<Rightarrow> ((error + entry list) \<times> state) option"
where
  "get_module_recursive 0 env s modul depth = None"
| "get_module_recursive (Suc fuel) env s modul depth =
     (case download_module env s modul of
        (Inl e, s1) \<Rightarrow> Some (Inl e, s1)
      | (Inr None, s1) \<Rightarrow> Some (Inr [], s1)
      | (Inr (Some module_file), s1) \<Rightarrow>
          if module_file = [] then Some (Inr [], s1)
          else
            (case get_dependencies env module_file of
               Inl e \<Rightarrow> Some (Inl e, s1)
             | Inr deps \<Rightarrow>
                 (case deps_loop fuel env s1 deps depth [] of
                    None \<Rightarrow> None
                  | Some (Inl e, s2) \<Rightarrow> Some (Inl e, s2)
                  | Some (Inr found, s2) \<Rightarrow>
                      if depth < 0 then Some (Inr (Tup module_file depth # found), s2)
                      else Some (sort_and_clean module_file depth found, s2))))"
| "deps_loop fuel env s [] depth found = Some (Inr found, s)"
| "deps_loop fuel env s (None # deps) depth found = deps_loop fuel env s deps depth found"
| "deps_loop fuel env s (Some dep # deps) depth found =
     (case get_module_recursive fuel env s dep (depth - 1) of
        None \<Rightarrow> None
      | Some (Inl e, s1) \<Rightarrow> Some (Inl e, s1)
      | Some (Inr dep_modules, s1) \<Rightarrow> deps_loop fuel env s1 deps depth (found @ dep_modules))"

text \<open>
  The archive \<open>X\<close> depends on the archive \<open>Y\<close>, in a state \<open>s\<close>: the dependencies
  read from \<open>X\<close> hold a request for which \<open>download_module\<close>, called in \<open>s\<close>, returns
  the path \<open>Y\<close>.
\<close>

definition depends_on :: "env \<Rightarrow> state \<Rightarrow> string \<Rightarrow> string \<Rightarrow> bool" where
  "depends_on env s X Y =
     (Y \<noteq> [] \<and>
      (case get_dependencies env X of
         Inl e \<Rightarrow> False
       | Inr deps \<Rightarrow>
           list_ex (\<lambda>dep. case dep of
                            None \<Rightarrow> False
                          | Some modul \<Rightarrow> fst (download_module env s modul) = Inr (Some Y))
             deps))"

subsection \<open>An example index\<close>

text \<open>
  A small world for concrete runs. The index knows three projects: \<open>app\<close> (a wheel
  that requires \<open>lib (>=1.0)\<close> and \<open>util\<close>), \<open>lib\<close> (wheels of the versions 1.0 and
  2.0; 2.0 requires \<open>util\<close>) and \<open>util\<close> (a source archive without requirements). The
  index answers a request for a project with the project's name, which
  \<open>json_loads\<close> reads as the project's document; any other text is not JSON.
\<close>

definition file_info :: "string \<Rightarrow> string \<Rightarrow> string \<Rightarrow> json" where
  "file_info fname packagetype python_version =
     JDict [(''url'', JStr (''https://files/'' @ fname)),
            (''filename'', JStr fname),
            (''packagetype'', JStr packagetype),
            (''python_version'', JStr python_version)]"

definition project_doc :: "string \<Rightarrow> (string \<times> json list) list \<Rightarrow> json list \<Rightarrow> json" where
  "project_doc latest releases urls =
     JDict [(''info'', JDict [(''version'', JStr latest)]),
            (''releases'', JDict (map (\<lambda>r. (fst r, JList (snd r))) releases)),
            (''urls'', JList urls)]"

definition app_whl :: json where
  "app_whl = file_info ''app-1.0-py3-none-any.whl'' ''bdist_wheel'' ''py3''"

definition lib1_whl :: json where
  "lib1_whl = file_info ''lib-1.0-py3-none-any.whl'' ''bdist_wheel'' ''py3''"

definition lib2_whl :: json where
  "lib2_whl = file_info ''lib-2.0-py3-none-any.whl'' ''bdist_wheel'' ''py3''"

definition util_sdist :: json where
  "util_sdist = file_info ''util-0.1.tar.gz'' ''sdist'' ''source''"

definition app_doc :: json where
  "app_doc = project_doc ''1.0'' [(''1.0'', [app_whl])] [app_whl]"

definition lib_doc :: json where
  "lib_doc = project_doc ''2.0'' [(''1.0'', [lib1_whl]), (''2.0'', [lib2_whl])] [lib2_whl]"

definition util_doc :: json where
  "util_doc = project_doc ''0.1'' [(''0.1'', [util_sdist])] [util_sdist]"

definition example_env :: env where
  "example_env =
     \<lparr>curl_response = (\<lambda>history module_name. module_name),
      json_loads = (\<lambda>text.
        if text = ''app'' then Some app_doc
        else if text = ''lib'' then Some lib_doc
        else if text = ''util'' then Some util_doc
        else None),
      wheel_supported = (\<lambda>fname. Inr True),
      cache_dir = ''/cache'',
      zip_lines = (\<lambda>whl meta.
        if whl = ''/cache/app-1.0-py3-none-any.whl'' \<and> meta = ''app-1.0.dist-info/METADATA''
        then Inr [''Name: app'', ''Requires-Dist: lib (>=1.0)'', ''Requires-Dist: util'']
        else if whl = ''/cache/lib-2.0-py3-none-any.whl'' \<and> meta = ''lib-2.0.dist-info/METADATA''
        then Inr [''Name: lib'', ''Requires-Dist: util'']
        else if whl = ''/cache/old-0.9-py3-none-any.whl'' \<and> meta = ''old-0.9.dist-info/METADATA''
        then Inr [''Requires-Dist: foo (>=1.2) ; extra == \"x\"'']
        else Inl KeyError),
      archive_members = (\<lambda>source.
        if source = ''/cache/util-0.1.tar.gz''
        then Inr [''util-0.1/setup.py'', ''util-0.1/util.egg-info/requires.txt'']
        else if source = ''/cache/src-1.0.zip''
        then Inr [''src-1.0/src.egg-info/requires.txt'']
        else Inl IOError),
      member_lines = (\<lambda>source member.
        if source = ''/cache/util-0.1.tar.gz'' \<and> member = ''util-0.1/util.egg-info/requires.txt''
        then Inr [''# nothing'', '''']
        else if source = ''/cache/src-1.0.zip'' \<and> member = ''src-1.0/src.egg-info/requires.txt''
        then Inr [''baz>=2.0'', ''# comment'', ''[extra]'', ''  '', ''foo[bar]>=1.0'']
        else Inl IOError)\<rparr>"

definition empty_state :: state where
  "empty_state = \<lparr>api_cache = Map.empty, requests = []\<rparr>"

text \<open>The state after \<open>app\<close> and what it requires have been resolved.\<close>

definition resolved_state :: state where
  "resolved_state =
     \<lparr>api_cache = [''app'' \<mapsto> app_doc, ''lib'' \<mapsto> lib_doc, ''util'' \<mapsto> util_doc],
      requests = [''app'', ''lib'', ''util'']\<rparr>"

text \<open>
  An index that answers every request with a JSON document of the "moved permanently"
  shape, whose message names the path of the project \<open>foo\<close> again.
\<close>

definition moved_text :: string where
  "moved_text = ''{\"code\": \"301 Moved Permanently\", \"message\": \"/pypi/foo/json;\"}''"

definition moved_doc :: json where
  "moved_doc = JDict [(''code'', JStr ''301 Moved Permanently''),
                      (''message'', JStr ''/pypi/foo/json;'')]"

definition moved_env :: env where
  "moved_env =
     example_env\<lparr>curl_response := (\<lambda>history module_name. moved_text),
                 json_loads := (\<lambda>text. if text = moved_text then Some moved_doc else None)\<rparr>"

section \<open>Properties\<close>

subsection \<open>Evaluation\<close>

lemmas char_eval = is_digit_def is_lower_def is_upper_def is_word_def is_space_def

lemmas version_eval =
  LooseVersion_def to_component_def kind_of_def int_of_digits_def digit_value_def
  version_eq_def version_ne_def version_ge_def version_gt_def version_le_def version_lt_def
  version_test_def bind_res_def compare_version_def char_eval

subsection \<open>Deduplication\<close>

lemma remdups_snoc: "remdups (ys @ [x]) = remdups (filter (\<lambda>y. y \<noteq> x) ys) @ [x]"
  by (induction ys) auto

lemma clean_loop_closed:
  "clean_loop xs res cache = res @ rev (remdups (rev (filter (\<lambda>x. x \<notin> cache) xs)))"
proof (induction xs arbitrary: res cache)
  case Nil
  then show ?case by simp
next
  case (Cons x xs)
  show ?case
  proof (cases "x \<in> cache")
    case True
    then show ?thesis using Cons.IH by simp
  next
    case False
    have eq: "filter (\<lambda>y. y \<noteq> x) (filter (\<lambda>y. y \<notin> cache) xs)
                = filter (\<lambda>y. y \<notin> insert x cache) xs"
      by (induction xs) auto
    have "clean_loop (x # xs) res cache = clean_loop xs (res @ [x]) (insert x cache)"
      using False by simp
    also have "\<dots> = (res @ [x])
                       @ rev (remdups (rev (filter (\<lambda>y. y \<notin> insert x cache) xs)))"
      by (rule Cons.IH)
    also have "\<dots> = res @ rev (remdups (rev (filter (\<lambda>y. y \<notin> cache) xs) @ [x]))"
      unfolding eq [symmetric] remdups_snoc by (simp add: rev_filter)
    also have "\<dots> = res @ rev (remdups (rev (filter (\<lambda>y. y \<notin> cache) (x # xs))))"
      using False by simp
    finally show ?thesis .
  qed
qed

lemma clean_closed: "clean_duplicated_files xs = rev (remdups (rev xs))"
  by (simp add: clean_duplicated_files_def clean_loop_closed)

lemma clean_distinct: "distinct (clean_duplicated_files xs)"
  by (simp add: clean_closed)

lemma clean_set: "set (clean_duplicated_files xs) = set xs"
  by (simp add: clean_closed)

lemma clean_loop_append:
  "clean_loop (xs @ ys) res cache = clean_loop ys (clean_loop xs res cache) (cache \<union> set xs)"
  by (induction xs arbitrary: res cache) (auto simp: insert_absorb)

lemma clean_first_occurrence:
  assumes "p \<notin> set as"
  shows "clean_duplicated_files (as @ p # ys)
           = clean_duplicated_files as @ p
               # clean_duplicated_files (filter (\<lambda>x. x \<noteq> p \<and> x \<notin> set as) ys)"
proof -
  have "clean_duplicated_files (as @ p # ys)
          = clean_loop (p # ys) (clean_duplicated_files as) (set as)"
    by (simp add: clean_duplicated_files_def clean_loop_append)
  also have "\<dots> = clean_loop ys (clean_duplicated_files as @ [p]) (insert p (set as))"
    using assms by simp
  also have "\<dots> = (clean_duplicated_files as @ [p])
                     @ rev (remdups (rev (filter (\<lambda>x. x \<notin> insert p (set as)) ys)))"
    by (rule clean_loop_closed)
  finally show ?thesis by (simp add: clean_closed)
qed

text \<open>
  C8: deduplication is idempotent; and when a path \<open>p\<close> stands at two positions of
  the input, the output keeps it once, at its first position (right after the
  deduplicated paths that precede it), followed by the deduplicated rest without it.
\<close>

theorem clean_duplicated_files_idempotent_first_wins:
  "clean_duplicated_files (clean_duplicated_files xs) = clean_duplicated_files xs \<and>
   (p \<notin> set as \<longrightarrow>
      clean_duplicated_files (as @ p # bs @ p # cs)
        = clean_duplicated_files as @ p
            # clean_duplicated_files (filter (\<lambda>x. x \<noteq> p \<and> x \<notin> set as) (bs @ cs)))"
proof (intro conjI impI)
  show "clean_duplicated_files (clean_duplicated_files xs) = clean_duplicated_files xs"
    by (simp add: clean_closed)
next
  assume "p \<notin> set as"
  then show "clean_duplicated_files (as @ p # bs @ p # cs)
        = clean_duplicated_files as @ p
            # clean_duplicated_files (filter (\<lambda>x. x \<noteq> p \<and> x \<notin> set as) (bs @ cs))"
    using clean_first_occurrence [of p as "bs @ p # cs"] by simp
qed

theorem clean_duplicated_files_idempotent_first_wins_witness:
  "clean_duplicated_files (clean_duplicated_files [''a.whl'', ''b.whl'', ''a.whl'', ''c.whl''])
     = clean_duplicated_files [''a.whl'', ''b.whl'', ''a.whl'', ''c.whl''] \<and>
   ''b.whl'' \<notin> set [''a.whl''] \<and>
   clean_duplicated_files ([''a.whl''] @ ''b.whl'' # [''c.whl''] @ ''b.whl'' # [''a.whl'', ''d.whl''])
     = [''a.whl'', ''b.whl'', ''c.whl'', ''d.whl'']"
  using clean_duplicated_files_idempotent_first_wins
          [of "[''a.whl'', ''b.whl'', ''a.whl'', ''c.whl'']" "''b.whl''" "[''a.whl'']"
              "[''c.whl'']" "[''a.whl'', ''d.whl'']"]
  by (simp add: clean_duplicated_files_def)

subsection \<open>Matching\<close>

lemma collect_results_ok:
  "\<forall>r \<in> set rs. \<exists>b. r = Inr b \<Longrightarrow> collect_results rs = Inr (map projr rs)"
  by (induction rs) auto

lemma collect_results_err:
  "Inl e \<in> set rs \<Longrightarrow> \<exists>e'. collect_results rs = Inl e'"
  by (induction rs) (auto split: sum.splits)

text \<open>
  The order of two component lists. Where \<open>list_lt a b\<close> returns, so does
  \<open>list_lt b a\<close>, and exactly one of \<open>a = b\<close>, \<open>a < b\<close>, \<open>b < a\<close> holds; where it raises,
  it raises \<open>TypeError\<close> in both directions. On versions made of numbers only it is
  the lexicographic order of the numbers.
\<close>

lemma str_lt_total: "a \<noteq> b \<Longrightarrow> str_lt b a = (\<not> str_lt a b)"
  by (induction a b rule: str_lt.induct) (auto simp: not_less_iff_gr_or_eq)

lemma component_lt_total:
  assumes "x \<noteq> y" and "component_lt x y = Inr lt"
  shows "component_lt y x = Inr (\<not> lt)"
proof (cases x)
  case (CInt i)
  then show ?thesis using assms by (cases y) auto
next
  case x: (CStr s)
  show ?thesis
  proof (cases y)
    case (CInt j)
    then show ?thesis using assms x by simp
  next
    case y: (CStr t)
    have "s \<noteq> t" and "str_lt s t = lt" using assms x y by auto
    then have "str_lt t s = (\<not> lt)" using str_lt_total [of s t] by simp
    then show ?thesis using x y by simp
  qed
qed

lemma component_lt_error:
  "component_lt x y = Inl e \<Longrightarrow> e = TypeError \<and> component_lt y x = Inl TypeError"
  by (cases x; cases y) auto

lemma list_lt_total:
  "list_lt a b = Inr lt \<Longrightarrow> list_lt b a = Inr (a \<noteq> b \<and> \<not> lt)"
proof (induction a b arbitrary: lt rule: list_lt.induct)
  case (4 x xs y ys)
  show ?case
  proof (cases "x = y")
    case True
    then show ?thesis using 4 by simp
  next
    case False
    then have "component_lt x y = Inr lt" using "4.prems" by simp
    then have "component_lt y x = Inr (\<not> lt)" using False component_lt_total by blast
    then show ?thesis using False by auto
  qed
qed auto

lemma list_lt_error:
  "list_lt a b = Inl e \<Longrightarrow> e = TypeError \<and> a \<noteq> b \<and> list_lt b a = Inl TypeError"
proof (induction a b rule: list_lt.induct)
  case (4 x xs y ys)
  show ?case
  proof (cases "x = y")
    case True
    then show ?thesis using 4 by simp
  next
    case False
    then have "component_lt x y = Inl e" using "4.prems" by simp
    then have "e = TypeError \<and> component_lt y x = Inl TypeError" by (rule component_lt_error)
    then show ?thesis using False by auto
  qed
qed auto

lemma list_lt_numeric:
  "list_lt (map CInt m) (map CInt n) = Inr ((m, n) \<in> lexord {(x, y). x < y})"
proof (induction m arbitrary: n)
  case Nil
  then show ?case by (cases n) auto
next
  case (Cons x xs)
  then show ?case by (cases n) auto
qed

lemma version_cmp_defined:
  assumes "list_lt a b = Inr lt"
  shows "version_cmp (Version a) (Version b)
           = Inr (Some (if a = b then 0 else if lt then - 1 else 1))"
proof -
  have "list_lt b a = Inr (a \<noteq> b \<and> \<not> lt)" using assms by (rule list_lt_total)
  then show ?thesis using assms by (simp add: bind_res_def)
qed

lemma list_lt_refl: "list_lt a a = Inr False"
  by (induction a) auto

text \<open>
  \<open>compare_version\<close> in terms of the result of \<open>LooseVersion._cmp\<close>, and an exception
  of a comparison inside \<open>is_match_version\<close>: the list comprehension stops at the first
  constraint whose comparison raises.
\<close>

lemma compare_version_of_cmp:
  assumes "version_cmp v w = Inr (Some k)"
  shows "compare_version v (Some w) op
           = Inr (if op = [] \<or> op = ''=='' then k = 0
                  else if op = ''!='' then k \<noteq> 0
                  else if op = ''>='' then 0 \<le> k
                  else if op = ''>'' then 0 < k
                  else if op = ''<='' then k \<le> 0
                  else if op = ''<'' then k < 0
                  else False)"
  using assms
  by (simp add: compare_version_def version_eq_def version_ne_def version_ge_def
        version_gt_def version_le_def version_lt_def version_test_def bind_res_def)

lemma compare_version_of_error:
  assumes "version_cmp v w = Inl e"
  shows "compare_version v (Some w) op
           = (if op \<in> {[], ''=='', ''!='', ''>='', ''>'', ''<='', ''<''} then Inl e
              else Inr False)"
  using assms
  by (simp add: compare_version_def version_eq_def version_ne_def version_ge_def
        version_gt_def version_le_def version_lt_def version_test_def bind_res_def)

lemma compare_version_defined:
  assumes "list_lt a b = Inr lt"
  shows "compare_version (Version a) (Some (Version b)) op
           = Inr (if op = [] \<or> op = ''=='' then a = b
                  else if op = ''!='' then a \<noteq> b
                  else if op = ''>='' then \<not> lt
                  else if op = ''>'' then a \<noteq> b \<and> \<not> lt
                  else if op = ''<='' then a = b \<or> lt
                  else if op = ''<'' then lt
                  else False)"
proof -
  define k :: int where "k = (if a = b then 0 else if lt then - 1 else 1)"
  have c: "version_cmp (Version a) (Version b) = Inr (Some k)"
    unfolding k_def using assms by (rule version_cmp_defined)
  have r: "a = b \<Longrightarrow> \<not> lt" using assms list_lt_refl [of a] by auto
  have k: "(k = 0) = (a = b)" "(0 \<le> k) = (\<not> lt)" "(0 < k) = (a \<noteq> b \<and> \<not> lt)"
    "(k \<le> 0) = (a = b \<or> lt)" "(k < 0) = lt"
    using r by (auto simp: k_def)
  show ?thesis unfolding compare_version_of_cmp [OF c] k by simp
qed

lemma compare_version_raises:
  assumes "list_lt a b = Inl e"
  shows "compare_version (Version a) (Some (Version b)) op
           = (if op \<in> {[], ''=='', ''!='', ''>='', ''>'', ''<='', ''<''} then Inl TypeError
              else Inr False)"
proof -
  have "e = TypeError \<and> a \<noteq> b" using assms list_lt_error by blast
  then have c: "version_cmp (Version a) (Version b) = Inl TypeError"
    using assms by (simp add: bind_res_def)
  show ?thesis by (rule compare_version_of_error [OF c])
qed

lemma compare_version_unparsed:
  assumes "v = NoVersion \<or> w = NoVersion"
  shows "compare_version v (Some w) op
           = (if op \<in> {[], ''=='', ''!='', ''>='', ''>'', ''<='', ''<''} then Inl AttributeError
              else Inr False)"
proof -
  have c: "version_cmp v w = Inl AttributeError"
    using assms by (cases v; cases w) auto
  show ?thesis by (rule compare_version_of_error [OF c])
qed

lemma collect_results_first_error:
  "\<forall>r \<in> set pre. \<exists>b. r = Inr b \<Longrightarrow> collect_results (pre @ Inl e # post) = Inl e"
  by (induction pre) auto

lemma is_match_version_first_error:
  assumes "\<forall>q \<in> set pre. \<exists>b. compare_version v (version q) (operator q) = Inr b"
    and "compare_version v (version r) (operator r) = Inl e"
  shows "is_match_version v (pre @ r # post) = Inl e"
proof -
  let ?f = "\<lambda>req. compare_version v (version req) (operator req)"
  have "\<forall>x \<in> set (map ?f pre). \<exists>b. x = Inr b" using assms(1) by auto
  then have "collect_results (map ?f pre @ Inl e # map ?f post) = Inl e"
    by (rule collect_results_first_error)
  then show ?thesis using assms(2) by (simp add: is_match_version_def bind_res_def)
qed

text \<open>
  C5 as stated fails at the candidate \<open>2.0rc1\<close> with the constraint \<open>>= 2.0.1\<close>: the
  component lists \<open>[2, 0, 'rc', 1]\<close> and \<open>[2, 0, 1]\<close> first differ where a string meets
  an integer, the comparison raises \<open>TypeError\<close>, and \<open>is_match_version\<close> returns no
  boolean.
\<close>

theorem is_match_version_raises_counterexample:
  "LooseVersion ''2.0rc1'' = Version [CInt 2, CInt 0, CStr ''rc'', CInt 1] \<and>
   LooseVersion ''2.0.1'' = Version [CInt 2, CInt 0, CInt 1] \<and>
   is_match_version (LooseVersion ''2.0rc1'')
     [\<lparr>version = Some (LooseVersion ''2.0.1''), operator = ''>=''\<rparr>] = Inl TypeError"
  by (simp add: version_eval is_match_version_def)

text \<open>
  C5, amended: \<open>is_match_version v []\<close> is true for every \<open>v\<close>. Where the comparison of
  \<open>v\<close> with every constraint of \<open>C\<close> returns, \<open>is_match_version v C\<close> is the conjunction
  of \<open>compare_version\<close> on the constraints of \<open>C\<close>; where one raises,
  \<open>is_match_version\<close> raises, with the exception of the first constraint that raises.
  The evaluation of one constraint: a constraint without a version holds; for two
  parsed versions whose order is defined, with \<open>lt\<close> saying that the candidate is below
  the constraint's version, \<open>==\<close> and the empty operator test the equality of the
  component lists, \<open>!=\<close> its negation, \<open>>=\<close>, \<open>>\<close>, \<open><=\<close> and \<open><\<close> the order, and any other
  operator gives false; where the order of the two lists is not defined the six
  operators raise \<open>TypeError\<close>, and with a version that was never parsed they raise
  \<open>AttributeError\<close>. The order of two versions made of numbers only is the
  lexicographic order of the numbers.
\<close>

theorem is_match_version_is_conjunction:
  "is_match_version v [] = Inr True \<and>
   ((\<forall>r \<in> set C. \<exists>b. compare_version v (version r) (operator r) = Inr b) \<longrightarrow>
      is_match_version v C
        = Inr (\<forall>r \<in> set C. compare_version v (version r) (operator r) = Inr True)) \<and>
   ((\<exists>r \<in> set D. \<exists>e. compare_version w (version r) (operator r) = Inl e) \<longrightarrow>
      (\<exists>e. is_match_version w D = Inl e)) \<and>
   ((\<forall>q \<in> set pre. \<exists>b. compare_version w (version q) (operator q) = Inr b) \<and>
    compare_version w (version r) (operator r) = Inl e \<longrightarrow>
      is_match_version w (pre @ r # post) = Inl e) \<and>
   compare_version v None op = Inr True \<and>
   (list_lt a b = Inr lt \<longrightarrow>
      compare_version (Version a) (Some (Version b)) op
        = Inr (if op = [] \<or> op = ''=='' then a = b
               else if op = ''!='' then a \<noteq> b
               else if op = ''>='' then \<not> lt
               else if op = ''>'' then a \<noteq> b \<and> \<not> lt
               else if op = ''<='' then a = b \<or> lt
               else if op = ''<'' then lt
               else False)) \<and>
   (list_lt c d = Inl e' \<longrightarrow>
      compare_version (Version c) (Some (Version d)) op
        = (if op \<in> {[], ''=='', ''!='', ''>='', ''>'', ''<='', ''<''} then Inl TypeError
           else Inr False)) \<and>
   (x = NoVersion \<or> y = NoVersion \<longrightarrow>
      compare_version x (Some y) op
        = (if op \<in> {[], ''=='', ''!='', ''>='', ''>'', ''<='', ''<''} then Inl AttributeError
           else Inr False)) \<and>
   list_lt (map CInt m) (map CInt n) = Inr ((m, n) \<in> lexord {(i, j). i < j})"
proof (intro conjI impI)
  show "is_match_version v [] = Inr True"
    by (simp add: is_match_version_def)
next
  let ?rs = "map (\<lambda>req. compare_version v (version req) (operator req)) C"
  assume a: "\<forall>r \<in> set C. \<exists>b. compare_version v (version r) (operator r) = Inr b"
  then have "\<forall>r \<in> set ?rs. \<exists>b. r = Inr b" by auto
  then have c: "collect_results ?rs = Inr (map projr ?rs)"
    by (rule collect_results_ok)
  have "list_all (\<lambda>b. b) (map projr ?rs)
          = (\<forall>r \<in> set C. compare_version v (version r) (operator r) = Inr True)"
    using a by (fastforce simp: list_all_iff)
  then show "is_match_version v C
               = Inr (\<forall>r \<in> set C. compare_version v (version r) (operator r) = Inr True)"
    using c by (auto simp: is_match_version_def bind_res_def)
next
  let ?rs = "map (\<lambda>req. compare_version w (version req) (operator req)) D"
  assume b: "\<exists>r \<in> set D. \<exists>e. compare_version w (version r) (operator r) = Inl e"
  then obtain e0 where "Inl e0 \<in> set ?rs" by force
  then obtain e1 where "collect_results ?rs = Inl e1"
    using collect_results_err by blast
  moreover have "D \<noteq> []" using b by auto
  ultimately show "\<exists>e. is_match_version w D = Inl e"
    by (simp add: is_match_version_def bind_res_def)
next
  assume "(\<forall>q \<in> set pre. \<exists>b. compare_version w (version q) (operator q) = Inr b) \<and>
          compare_version w (version r) (operator r) = Inl e"
  then show "is_match_version w (pre @ r # post) = Inl e"
    using is_match_version_first_error by blast
next
  show "compare_version v None op = Inr True"
    by (simp add: compare_version_def)
next
  assume "list_lt a b = Inr lt"
  then show "compare_version (Version a) (Some (Version b)) op
        = Inr (if op = [] \<or> op = ''=='' then a = b
               else if op = ''!='' then a \<noteq> b
               else if op = ''>='' then \<not> lt
               else if op = ''>'' then a \<noteq> b \<and> \<not> lt
               else if op = ''<='' then a = b \<or> lt
               else if op = ''<'' then lt
               else False)"
    by (rule compare_version_defined)
next
  assume "list_lt c d = Inl e'"
  then show "compare_version (Version c) (Some (Version d)) op
        = (if op \<in> {[], ''=='', ''!='', ''>='', ''>'', ''<='', ''<''} then Inl TypeError
           else Inr False)"
    by (rule compare_version_raises)
next
  assume "x = NoVersion \<or> y = NoVersion"
  then show "compare_version x (Some y) op
        = (if op \<in> {[], ''=='', ''!='', ''>='', ''>'', ''<='', ''<''} then Inl AttributeError
           else Inr False)"
    by (rule compare_version_unparsed)
next
  show "list_lt (map CInt m) (map CInt n) = Inr ((m, n) \<in> lexord {(i, j). i < j})"
    by (rule list_lt_numeric)
qed

theorem is_match_version_is_conjunction_witness:
  "compare_version (LooseVersion ''1.4'') (Some (LooseVersion ''1.2'')) ''>='' = Inr True \<and>
   compare_version (LooseVersion ''1.4'') (Some (LooseVersion ''1.3'')) ''!='' = Inr True \<and>
   is_match_version (LooseVersion ''1.4'')
     [\<lparr>version = Some (LooseVersion ''1.2''), operator = ''>=''\<rparr>,
      \<lparr>version = Some (LooseVersion ''1.3''), operator = ''!=''\<rparr>] = Inr True \<and>
   compare_version (LooseVersion ''2.0rc1'') (Some (LooseVersion ''1.0'')) ''>='' = Inr True \<and>
   compare_version (LooseVersion ''2.0rc1'') (Some (LooseVersion ''2.0.1'')) ''>=''
     = Inl TypeError \<and>
   is_match_version (LooseVersion ''2.0rc1'')
     [\<lparr>version = Some (LooseVersion ''1.0''), operator = ''>=''\<rparr>,
      \<lparr>version = Some (LooseVersion ''2.0.1''), operator = ''>=''\<rparr>,
      \<lparr>version = Some (LooseVersion ''3.0''), operator = ''<''\<rparr>] = Inl TypeError \<and>
   list_lt [CInt 1, CInt 10] [CInt 1, CInt 9] = Inr False \<and>
   compare_version (Version [CInt 1, CInt 10]) (Some (Version [CInt 1, CInt 9])) ''>=''
     = Inr True \<and>
   list_lt [CInt 2, CInt 0, CStr ''rc'', CInt 1] [CInt 2, CInt 0, CInt 1] = Inl TypeError \<and>
   compare_version (Version [CInt 2, CInt 0, CStr ''rc'', CInt 1])
     (Some (Version [CInt 2, CInt 0, CInt 1])) ''>='' = Inl TypeError \<and>
   compare_version NoVersion (Some (Version [CInt 1])) ''>='' = Inl AttributeError"
proof -
  let ?v = "LooseVersion ''1.4''"
  let ?C = "[\<lparr>version = Some (LooseVersion ''1.2''), operator = ''>=''\<rparr>,
             \<lparr>version = Some (LooseVersion ''1.3''), operator = ''!=''\<rparr>]"
  let ?w = "LooseVersion ''2.0rc1''"
  let ?pre = "[\<lparr>version = Some (LooseVersion ''1.0''), operator = ''>=''\<rparr>]"
  let ?r = "\<lparr>version = Some (LooseVersion ''2.0.1''), operator = ''>=''\<rparr>"
  let ?post = "[\<lparr>version = Some (LooseVersion ''3.0''), operator = ''<''\<rparr>]"
  let ?a = "[CInt 1, CInt 10]"
  let ?b = "[CInt 1, CInt 9]"
  let ?c = "[CInt 2, CInt 0, CStr ''rc'', CInt 1]"
  let ?d = "[CInt 2, CInt 0, CInt 1]"
  note t = is_match_version_is_conjunction [where v = ?v and C = ?C and w = ?w and D = "?pre @ ?r # ?post"
      and pre = ?pre and r = ?r and post = ?post and e = TypeError and op = "''>=''"
      and a = ?a and b = ?b and lt = False and c = ?c and d = ?d and e' = TypeError
      and x = NoVersion and y = "Version [CInt 1]" and m = "[1, 10]" and n = "[1, 9]"]
  have c1: "compare_version ?v (Some (LooseVersion ''1.2'')) ''>='' = Inr True"
    by (simp add: version_eval)
  have c2: "compare_version ?v (Some (LooseVersion ''1.3'')) ''!='' = Inr True"
    by (simp add: version_eval)
  have c3: "compare_version ?w (Some (LooseVersion ''1.0'')) ''>='' = Inr True"
    by (simp add: version_eval)
  have c4: "compare_version ?w (Some (LooseVersion ''2.0.1'')) ''>='' = Inl TypeError"
    by (simp add: version_eval)
  have l1: "list_lt ?a ?b = Inr False" by simp
  have l2: "list_lt ?c ?d = Inl TypeError" by simp
  have h1: "\<forall>r \<in> set ?C. \<exists>b. compare_version ?v (version r) (operator r) = Inr b"
    using c1 c2 by auto
  have h2: "\<forall>q \<in> set ?pre. \<exists>b. compare_version ?w (version q) (operator q) = Inr b"
    using c3 by auto
  have "is_match_version ?v ?C
          = Inr (\<forall>r \<in> set ?C. compare_version ?v (version r) (operator r) = Inr True)"
    using t h1 by blast
  then have m1: "is_match_version ?v ?C = Inr True"
    using c1 c2 by simp
  have m2: "is_match_version ?w (?pre @ ?r # ?post) = Inl TypeError"
    using t h2 c4 by simp
  have k1: "compare_version (Version ?a) (Some (Version ?b)) ''>='' = Inr True"
    using t l1 by simp
  have k2: "compare_version (Version ?c) (Some (Version ?d)) ''>='' = Inl TypeError"
    using t l2 by simp
  have k3: "compare_version NoVersion (Some (Version [CInt 1])) ''>='' = Inl AttributeError"
    using t by simp
  show ?thesis using c1 c2 c3 c4 l1 l2 m1 m2 k1 k2 k3 by simp
qed

lemmas parse_eval =
  whl_dep2module_def whl_lines_deps_def whl_module_filter_def source_module_filter_def
  source_dep2module_def parse_requirements_def match_version_at_def no_punctuation_def
  is_name_char_def is_spec_char_def is_op_char_def is_ver_char_def is_cmp_char_def at_end_def
  strip_def startswith_def deps_label_def InstallModule1_def split_char.simps

subsection \<open>Parsing the declarations of a source archive\<close>

lemma run_then_stop:
  assumes "list_all P n" and "r = [] \<or> \<not> P (hd r)"
  shows "takeWhile P (n @ r) = n" and "dropWhile P (n @ r) = r"
proof -
  have a: "\<And>x. x \<in> set n \<Longrightarrow> P x" using assms(1) by (simp add: list_all_iff)
  have t: "takeWhile P r = []" and d: "dropWhile P r = r"
    using assms(2) by (cases r; simp)+
  show "takeWhile P (n @ r) = n" using takeWhile_append2 [of n P r] a t by simp
  show "dropWhile P (n @ r) = r" using dropWhile_append2 [of n P r] a d by simp
qed

lemma strip_blank:
  assumes "list_all is_space l"
  shows "strip l = []"
proof -
  have e: "dropWhile is_space l = []" using assms by (simp add: list_all_iff)
  show ?thesis unfolding strip_def e by simp
qed

lemma strip_keeps_first:
  assumes "\<not> is_space c"
  shows "strip (c # rest) = c # rev (dropWhile is_space (rev rest))"
  using assms by (simp add: strip_def dropWhile_append3)

lemma parse_requirements_append:
  "parse_requirements (xs @ ys) = parse_requirements xs @ parse_requirements ys"
  by (simp add: parse_requirements_def)

lemma parse_requirements_skip:
  assumes "list_all is_space l \<or> startswith l ''#'' \<or> startswith l ''[''"
  shows "parse_requirements [l] = []"
proof -
  consider "list_all is_space l" | "startswith l ''#''" | "startswith l ''[''"
    using assms by blast
  then show ?thesis
  proof cases
    case 1
    then show ?thesis by (simp add: parse_requirements_def strip_blank)
  next
    case 2
    then obtain rest where l: "l = CHR ''#'' # rest"
      by (cases l) (auto simp: startswith_def)
    have "\<not> is_space CHR ''#''" by (simp add: is_space_def)
    then show ?thesis
      unfolding l by (simp add: parse_requirements_def strip_keeps_first startswith_def)
  next
    case 3
    then obtain rest where l: "l = CHR ''['' # rest"
      by (cases l) (auto simp: startswith_def)
    have "\<not> is_space CHR ''[''" by (simp add: is_space_def)
    then show ?thesis
      unfolding l by (simp add: parse_requirements_def strip_keeps_first startswith_def)
  qed
qed

lemma parse_baz: "parse_requirements [''baz>=2.0'']
      = [\<lparr>name = ''baz'',
          version_requirements = [\<lparr>version = Some (LooseVersion ''2.0''), operator = ''>=''\<rparr>]\<rparr>]"
  by (simp add: parse_eval char_eval)

lemma source_filter_shape:
  assumes "n \<noteq> []" "list_all is_name_char n" "op \<noteq> []" "list_all is_cmp_char op"
    and "v \<noteq> []" "list_all is_ver_char v"
  shows "source_module_filter (n @ op @ v) = Some (n, op, v)"
proof -
  have cmp_not_name: "\<And>c. is_cmp_char c \<Longrightarrow> \<not> is_name_char c"
    by (auto simp: is_cmp_char_def is_name_char_def char_eval)
  have ver_not_cmp: "\<And>c. is_ver_char c \<Longrightarrow> \<not> is_cmp_char c"
    by (auto simp: is_cmp_char_def is_ver_char_def char_eval)
  have "is_cmp_char (hd op)" using assms(3,4) by (cases op) auto
  then have h1: "op @ v = [] \<or> \<not> is_name_char (hd (op @ v))"
    using assms(3) cmp_not_name by simp
  have "is_ver_char (hd v)" using assms(5,6) by (cases v) auto
  then have h2: "v = [] \<or> \<not> is_cmp_char (hd v)" using ver_not_cmp by simp
  have t1: "takeWhile is_name_char (n @ op @ v) = n"
    and d1: "dropWhile is_name_char (n @ op @ v) = op @ v"
    using run_then_stop [OF assms(2) h1] by simp_all
  have t2: "takeWhile is_cmp_char (op @ v) = op" and d2: "dropWhile is_cmp_char (op @ v) = v"
    using run_then_stop [OF assms(4) h2] by simp_all
  have t3: "takeWhile is_ver_char v = v" and d3: "dropWhile is_ver_char v = []"
    using assms(6) by (simp_all add: list_all_iff)
  show ?thesis
    using assms(1,3,5,6)
    by (simp add: source_module_filter_def t1 d1 t2 d2 t3 d3 at_end_def list_all_iff)
qed

lemmas json_eval = file_info_def project_doc_def app_whl_def lib1_whl_def lib2_whl_def
  util_sdist_def app_doc_def lib_doc_def util_doc_def example_env_def empty_state_def
  moved_text_def moved_doc_def moved_env_def

lemmas deps_eval = get_dependencies_def get_whl_dependencies_def get_source_dependencies_def
  splitext_ext_def after_last_slash_def req_end_path_def endswith_def

text \<open>
  C7: in the declarations file of a source archive, the line \<open>baz>=2.0\<close> yields the
  request \<open>baz\<close> with the one constraint \<open>>= 2.0\<close>, and a blank line, a line that
  starts with \<open>#\<close> and a line that starts with \<open>[\<close> add nothing to the list
  \<open>get_source_dependencies\<close> returns.
\<close>

theorem source_declarations_lines:
  "parse_requirements (before @ ''baz>=2.0'' # after)
     = parse_requirements before
       @ \<lparr>name = ''baz'',
           version_requirements = [\<lparr>version = Some (LooseVersion ''2.0''), operator = ''>=''\<rparr>]\<rparr>
       # parse_requirements after \<and>
   (list_all is_space l \<or> startswith l ''#'' \<or> startswith l ''['' \<longrightarrow>
      parse_requirements (before @ l # after)
        = parse_requirements before @ parse_requirements after) \<and>
   ((splitext_ext source = ''.gz'' \<or> splitext_ext source = ''.zip'') \<and>
    archive_members env source = Inr members \<and>
    find (\<lambda>member. endswith member req_end_path) members = Some requires_rel_path \<and>
    member_lines env source requires_rel_path = Inr lines \<longrightarrow>
      get_source_dependencies env source = Inr (map Some (parse_requirements lines)))"
proof (intro conjI impI)
  show "parse_requirements (before @ ''baz>=2.0'' # after)
     = parse_requirements before
       @ \<lparr>name = ''baz'',
           version_requirements = [\<lparr>version = Some (LooseVersion ''2.0''), operator = ''>=''\<rparr>]\<rparr>
       # parse_requirements after"
    using parse_requirements_append [of before "[''baz>=2.0''] @ after"]
      parse_requirements_append [of "[''baz>=2.0'']" after] parse_baz
    by simp
next
  assume "list_all is_space l \<or> startswith l ''#'' \<or> startswith l ''[''"
  then have "parse_requirements [l] = []" by (rule parse_requirements_skip)
  then show "parse_requirements (before @ l # after)
        = parse_requirements before @ parse_requirements after"
    using parse_requirements_append [of before "[l] @ after"]
      parse_requirements_append [of "[l]" after]
    by simp
next
  assume a: "(splitext_ext source = ''.gz'' \<or> splitext_ext source = ''.zip'') \<and>
    archive_members env source = Inr members \<and>
    find (\<lambda>member. endswith member req_end_path) members = Some requires_rel_path \<and>
    member_lines env source requires_rel_path = Inr lines"
  then have "members \<noteq> []" by auto
  then show "get_source_dependencies env source = Inr (map Some (parse_requirements lines))"
    using a by (auto simp: get_source_dependencies_def bind_res_def)
qed

theorem source_declarations_lines_witness:
  "list_all is_space ''  '' \<and> startswith ''# comment'' ''#'' \<and> startswith ''[extra]'' ''['' \<and>
   splitext_ext ''/cache/src-1.0.zip'' = ''.zip'' \<and>
   get_source_dependencies example_env ''/cache/src-1.0.zip''
     = Inr (map Some (parse_requirements
              [''baz>=2.0'', ''# comment'', ''[extra]'', ''  '', ''foo[bar]>=1.0''])) \<and>
   parse_requirements [''baz>=2.0'', ''# comment'', ''[extra]'', ''  '', ''foo[bar]>=1.0'']
     = \<lparr>name = ''baz'',
         version_requirements = [\<lparr>version = Some (LooseVersion ''2.0''), operator = ''>=''\<rparr>]\<rparr>
       # parse_requirements [''foo[bar]>=1.0'']"
proof -
  have b: "list_all is_space ''  ''" by (simp add: is_space_def)
  have c: "startswith ''# comment'' ''#''" by (simp add: startswith_def)
  have d: "startswith ''[extra]'' ''[''" by (simp add: startswith_def)
  have e: "splitext_ext ''/cache/src-1.0.zip'' = ''.zip''"
    by (simp add: splitext_ext_def after_last_slash_def)
  have m: "archive_members example_env ''/cache/src-1.0.zip''
             = Inr [''src-1.0/src.egg-info/requires.txt'']"
    by (simp add: example_env_def)
  have f: "find (\<lambda>member. endswith member req_end_path) [''src-1.0/src.egg-info/requires.txt'']
             = Some ''src-1.0/src.egg-info/requires.txt''"
    by (simp add: endswith_def req_end_path_def)
  have r: "member_lines example_env ''/cache/src-1.0.zip'' ''src-1.0/src.egg-info/requires.txt''
             = Inr [''baz>=2.0'', ''# comment'', ''[extra]'', ''  '', ''foo[bar]>=1.0'']"
    by (simp add: example_env_def)
  have g: "get_source_dependencies example_env ''/cache/src-1.0.zip''
     = Inr (map Some (parse_requirements
              [''baz>=2.0'', ''# comment'', ''[extra]'', ''  '', ''foo[bar]>=1.0'']))"
    using source_declarations_lines
            [of "[]" "[]" "[]" "''/cache/src-1.0.zip''" example_env
                "[''src-1.0/src.egg-info/requires.txt'']" "''src-1.0/src.egg-info/requires.txt''"
                "[''baz>=2.0'', ''# comment'', ''[extra]'', ''  '', ''foo[bar]>=1.0'']"]
          e m f r
    by blast
  have s1: "parse_requirements ([''baz>=2.0''] @ ''# comment'' # [''[extra]'', ''  '', ''foo[bar]>=1.0''])
              = parse_requirements [''baz>=2.0''] @ parse_requirements [''[extra]'', ''  '', ''foo[bar]>=1.0'']"
    using source_declarations_lines
            [of "[''baz>=2.0'']" "[''[extra]'', ''  '', ''foo[bar]>=1.0'']" "''# comment''"] c
    by blast
  have s2: "parse_requirements ([] @ ''[extra]'' # [''  '', ''foo[bar]>=1.0''])
              = parse_requirements [] @ parse_requirements [''  '', ''foo[bar]>=1.0'']"
    using source_declarations_lines [of "[]" "[''  '', ''foo[bar]>=1.0'']" "''[extra]''"] d
    by blast
  have s3: "parse_requirements ([] @ ''  '' # [''foo[bar]>=1.0''])
              = parse_requirements [] @ parse_requirements [''foo[bar]>=1.0'']"
    using source_declarations_lines [of "[]" "[''foo[bar]>=1.0'']" "''  ''"] b
    by blast
  have s0: "parse_requirements ([] @ ''baz>=2.0'' # [])
     = parse_requirements []
       @ \<lparr>name = ''baz'',
           version_requirements = [\<lparr>version = Some (LooseVersion ''2.0''), operator = ''>=''\<rparr>]\<rparr>
       # parse_requirements []"
    using source_declarations_lines [of "[]" "[]"] by blast
  have n: "parse_requirements [] = []" by (simp add: parse_requirements_def)
  have "parse_requirements [''baz>=2.0'', ''# comment'', ''[extra]'', ''  '', ''foo[bar]>=1.0'']
     = \<lparr>name = ''baz'',
         version_requirements = [\<lparr>version = Some (LooseVersion ''2.0''), operator = ''>=''\<rparr>]\<rparr>
       # parse_requirements [''foo[bar]>=1.0'']"
    using s0 s1 s2 s3 n by simp
  then show ?thesis using b c d e g by blast
qed

subsection \<open>The name of a request with extras\<close>

lemma whl_filter_shape:
  assumes "n \<noteq> []" "list_all is_name_char n" "spec \<noteq> []" "list_all is_spec_char spec"
  shows "whl_module_filter (n @ '' ('' @ spec @ '')'') = Some (n, spec)"
proof -
  have h1: "'' ('' @ spec @ '')'' = [] \<or> \<not> is_name_char (hd ('' ('' @ spec @ '')''))"
    by (simp add: is_name_char_def char_eval)
  have h2: "'')'' = [] \<or> \<not> is_spec_char (hd '')'')"
    by (simp add: is_spec_char_def char_eval)
  have t1: "takeWhile is_name_char (n @ '' ('' @ spec @ '')'') = n"
    and d1: "dropWhile is_name_char (n @ '' ('' @ spec @ '')'') = '' ('' @ spec @ '')''"
    using run_then_stop [OF assms(2) h1] by simp_all
  have t2: "takeWhile is_spec_char (spec @ '')'') = spec"
    and d2: "dropWhile is_spec_char (spec @ '')'') = '')''"
    using run_then_stop [OF assms(4) h2] by simp_all
  show ?thesis
    unfolding whl_module_filter_def Let_def t1 d1
    using assms(1,3) t2 d2 by (simp add: startswith_def at_end_def)
qed

text \<open>
  C10: a line \<open>name[extras]<op><version>\<close> of a source archive's declarations yields
  a request whose name is the whole first group, brackets included; the binary
  strategy cuts the name of its first group at the first bracket.
\<close>

theorem source_name_keeps_extras:
  "(n \<noteq> [] \<and> list_all is_name_char n \<and> op \<noteq> [] \<and> list_all is_cmp_char op \<and>
    v \<noteq> [] \<and> list_all is_ver_char v \<longrightarrow>
      source_dep2module (n @ op @ v)
        = Some \<lparr>name = n,
                 version_requirements = [\<lparr>version = Some (LooseVersion v), operator = op\<rparr>]\<rparr>) \<and>
   (n \<noteq> [] \<and> list_all is_name_char n \<and> spec \<noteq> [] \<and> list_all is_spec_char spec \<and>
    strip (remove_all deps_label line) = n @ '' ('' @ spec @ '')'' \<longrightarrow>
      map_option name (whl_dep2module line) = Some (takeWhile (\<lambda>c. c \<noteq> CHR ''['') n))"
proof (intro conjI impI)
  assume "n \<noteq> [] \<and> list_all is_name_char n \<and> op \<noteq> [] \<and> list_all is_cmp_char op \<and>
    v \<noteq> [] \<and> list_all is_ver_char v"
  then have "source_module_filter (n @ op @ v) = Some (n, op, v)"
    using source_filter_shape by blast
  then show "source_dep2module (n @ op @ v)
        = Some \<lparr>name = n,
                 version_requirements = [\<lparr>version = Some (LooseVersion v), operator = op\<rparr>]\<rparr>"
    by (simp add: source_dep2module_def)
next
  assume a: "n \<noteq> [] \<and> list_all is_name_char n \<and> spec \<noteq> [] \<and> list_all is_spec_char spec \<and>
    strip (remove_all deps_label line) = n @ '' ('' @ spec @ '')''"
  then have f: "whl_module_filter (strip (remove_all deps_label line)) = Some (n, spec)"
    using whl_filter_shape by simp
  have nm: "name (the (whl_dep2module line))
              = (if CHR ''['' \<in> set n then takeWhile (\<lambda>c. c \<noteq> CHR ''['') n else n)"
    and ex: "whl_dep2module line \<noteq> None"
    using f by (simp_all add: whl_dep2module_def Let_def)
  have "takeWhile (\<lambda>c. c \<noteq> CHR ''['') n = n" if "CHR ''['' \<notin> set n"
    using that by (induction n) auto
  then have "name (the (whl_dep2module line)) = takeWhile (\<lambda>c. c \<noteq> CHR ''['') n"
    using nm by metis
  then show "map_option name (whl_dep2module line) = Some (takeWhile (\<lambda>c. c \<noteq> CHR ''['') n)"
    using ex by (cases "whl_dep2module line") simp_all
qed

theorem source_name_keeps_extras_witness:
  "''foo[bar]'' \<noteq> [] \<and> list_all is_name_char ''foo[bar]'' \<and> ''>='' \<noteq> [] \<and>
   list_all is_cmp_char ''>='' \<and> ''1.0'' \<noteq> [] \<and> list_all is_ver_char ''1.0'' \<and>
   list_all is_spec_char ''>=1.0'' \<and>
   strip (remove_all deps_label ''Requires-Dist: foo[bar] (>=1.0)'') = ''foo[bar]'' @ '' ('' @ ''>=1.0'' @ '')'' \<and>
   source_dep2module ''foo[bar]>=1.0''
     = Some \<lparr>name = ''foo[bar]'',
              version_requirements = [\<lparr>version = Some (LooseVersion ''1.0''), operator = ''>=''\<rparr>]\<rparr> \<and>
   map_option name (whl_dep2module ''Requires-Dist: foo[bar] (>=1.0)'') = Some ''foo''"
proof -
  have h1: "list_all is_name_char ''foo[bar]''" by (simp add: is_name_char_def char_eval)
  have h2: "list_all is_cmp_char ''>=''" by (simp add: is_cmp_char_def)
  have h3: "list_all is_ver_char ''1.0''" by (simp add: is_ver_char_def char_eval)
  have h4: "list_all is_spec_char ''>=1.0''" by (simp add: is_spec_char_def char_eval)
  have h5: "strip (remove_all deps_label ''Requires-Dist: foo[bar] (>=1.0)'')
              = ''foo[bar]'' @ '' ('' @ ''>=1.0'' @ '')''"
    by (simp add: strip_def deps_label_def startswith_def is_space_def)
  have "source_dep2module (''foo[bar]'' @ ''>='' @ ''1.0'')
     = Some \<lparr>name = ''foo[bar]'',
              version_requirements = [\<lparr>version = Some (LooseVersion ''1.0''), operator = ''>=''\<rparr>]\<rparr>"
    using source_name_keeps_extras [of "''foo[bar]''" "''>=''" "''1.0''"] h1 h2 h3 by simp
  then have c1: "source_dep2module ''foo[bar]>=1.0''
     = Some \<lparr>name = ''foo[bar]'',
              version_requirements = [\<lparr>version = Some (LooseVersion ''1.0''), operator = ''>=''\<rparr>]\<rparr>"
    by simp
  have "map_option name (whl_dep2module ''Requires-Dist: foo[bar] (>=1.0)'')
          = Some (takeWhile (\<lambda>c. c \<noteq> CHR ''['') ''foo[bar]'')"
    using source_name_keeps_extras
            [of "''foo[bar]''" _ _ "''>=1.0''" "''Requires-Dist: foo[bar] (>=1.0)''"] h1 h4 h5
    by simp
  then have c2: "map_option name (whl_dep2module ''Requires-Dist: foo[bar] (>=1.0)'') = Some ''foo''"
    by simp
  show ?thesis using h1 h2 h3 h4 h5 c1 c2 by simp
qed

subsection \<open>The dependency lines of a binary archive\<close>

lemma whl_lines_deps_append:
  "whl_lines_deps (xs @ ys) = whl_lines_deps xs @ whl_lines_deps ys"
  by (simp add: whl_lines_deps_def)

lemma whl_foo: "whl_lines_deps [''Requires-Dist: foo (>=1.2,!=1.3)'']
   = [Some \<lparr>name = ''foo'', version_requirements =
        [\<lparr>version = Some (LooseVersion ''1.2''), operator = ''>=''\<rparr>,
         \<lparr>version = Some (LooseVersion ''1.3''), operator = ''!=''\<rparr>]\<rparr>]"
  by (simp add: parse_eval char_eval)

lemma whl_bar:
  "whl_lines_deps [''Requires-Dist: bar''] = [Some \<lparr>name = ''bar'', version_requirements = []\<rparr>]"
  by (simp add: parse_eval char_eval)

text \<open>
  C6, as the code has it: \<open>Requires-Dist: foo (>=1.2,!=1.3)\<close> yields the request
  \<open>foo\<close> with the constraints \<open>>= 1.2\<close> and \<open>!= 1.3\<close>, and \<open>Requires-Dist: bar\<close> the
  request \<open>bar\<close> without constraints. A line with the prefix whose remainder fails the
  pattern becomes a bare-name request when the remainder has no constraint
  punctuation; otherwise its place in the list \<open>get_whl_dependencies\<close> returns holds
  \<open>None\<close>, an entry that the loop of \<open>get_module_recursive\<close> passes over.
\<close>

theorem whl_dependency_lines:
  "whl_lines_deps [''Requires-Dist: foo (>=1.2,!=1.3)'']
     = [Some \<lparr>name = ''foo'', version_requirements =
          [\<lparr>version = Some (LooseVersion ''1.2''), operator = ''>=''\<rparr>,
           \<lparr>version = Some (LooseVersion ''1.3''), operator = ''!=''\<rparr>]\<rparr>] \<and>
   whl_lines_deps [''Requires-Dist: bar''] = [Some \<lparr>name = ''bar'', version_requirements = []\<rparr>] \<and>
   (startswith line deps_label \<and>
    whl_module_filter (strip (remove_all deps_label line)) = None \<longrightarrow>
      whl_lines_deps (before @ line # after)
        = whl_lines_deps before
          @ (if no_punctuation (strip (remove_all deps_label line))
             then Some (InstallModule1 (strip (remove_all deps_label line))) else None)
          # whl_lines_deps after) \<and>
   (split_char CHR ''-'' (after_last_slash whl) = nm # ver # others \<and>
    zip_lines env whl (nm @ ''-'' @ ver @ ''.dist-info/METADATA'') = Inr lines \<longrightarrow>
      get_whl_dependencies env whl = Inr (whl_lines_deps lines)) \<and>
   deps_loop fuel env s (None # deps) depth found = deps_loop fuel env s deps depth found"
proof (intro conjI impI)
  show "whl_lines_deps [''Requires-Dist: foo (>=1.2,!=1.3)'']
     = [Some \<lparr>name = ''foo'', version_requirements =
          [\<lparr>version = Some (LooseVersion ''1.2''), operator = ''>=''\<rparr>,
           \<lparr>version = Some (LooseVersion ''1.3''), operator = ''!=''\<rparr>]\<rparr>]"
    by (rule whl_foo)
next
  show "whl_lines_deps [''Requires-Dist: bar''] = [Some \<lparr>name = ''bar'', version_requirements = []\<rparr>]"
    by (rule whl_bar)
next
  assume a: "startswith line deps_label \<and>
    whl_module_filter (strip (remove_all deps_label line)) = None"
  then have "whl_lines_deps [line]
               = [if no_punctuation (strip (remove_all deps_label line))
                  then Some (InstallModule1 (strip (remove_all deps_label line))) else None]"
    by (simp add: whl_lines_deps_def whl_dep2module_def)
  then show "whl_lines_deps (before @ line # after)
        = whl_lines_deps before
          @ (if no_punctuation (strip (remove_all deps_label line))
             then Some (InstallModule1 (strip (remove_all deps_label line))) else None)
          # whl_lines_deps after"
    using whl_lines_deps_append [of before "[line] @ after"]
      whl_lines_deps_append [of "[line]" after]
    by simp
next
  assume "split_char CHR ''-'' (after_last_slash whl) = nm # ver # others \<and>
    zip_lines env whl (nm @ ''-'' @ ver @ ''.dist-info/METADATA'') = Inr lines"
  then show "get_whl_dependencies env whl = Inr (whl_lines_deps lines)"
    by (simp add: get_whl_dependencies_def bind_res_def)
next
  show "deps_loop fuel env s (None # deps) depth found = deps_loop fuel env s deps depth found"
    by simp
qed

text \<open>
  C6 as stated fails: a line with the prefix, constraint punctuation and a remainder
  that fails the pattern is not dropped from the list that \<open>get_whl_dependencies\<close>
  returns; the list holds an entry for it.
\<close>

theorem whl_unparsable_line_counterexample:
  "startswith ''Requires-Dist: foo (>=1.2) ; extra == \"x\"'' deps_label \<and>
   whl_module_filter (strip (remove_all deps_label ''Requires-Dist: foo (>=1.2) ; extra == \"x\"'')) = None \<and>
   \<not> no_punctuation (strip (remove_all deps_label ''Requires-Dist: foo (>=1.2) ; extra == \"x\"'')) \<and>
   get_whl_dependencies example_env ''/cache/old-0.9-py3-none-any.whl'' = Inr [None]"
  by (simp add: parse_eval char_eval deps_eval example_env_def bind_res_def)

theorem whl_dependency_lines_witness:
  "startswith ''Requires-Dist: foo (>=1.2) ; extra == \"x\"'' deps_label \<and>
   whl_module_filter (strip (remove_all deps_label ''Requires-Dist: foo (>=1.2) ; extra == \"x\"'')) = None \<and>
   whl_lines_deps ([''Requires-Dist: bar''] @ ''Requires-Dist: foo (>=1.2) ; extra == \"x\"'' # [])
     = [Some \<lparr>name = ''bar'', version_requirements = []\<rparr>, None] \<and>
   startswith ''Requires-Dist: a b'' deps_label \<and>
   whl_module_filter (strip (remove_all deps_label ''Requires-Dist: a b'')) = None \<and>
   whl_lines_deps ([] @ ''Requires-Dist: a b'' # []) = [Some (InstallModule1 ''a b'')] \<and>
   split_char CHR ''-'' (after_last_slash ''/cache/lib-2.0-py3-none-any.whl'')
     = ''lib'' # ''2.0'' # [''py3'', ''none'', ''any.whl''] \<and>
   get_whl_dependencies example_env ''/cache/lib-2.0-py3-none-any.whl''
     = Inr (whl_lines_deps [''Name: lib'', ''Requires-Dist: util''])"
proof -
  let ?x = "''Requires-Dist: foo (>=1.2) ; extra == \"x\"''"
  have a1: "startswith ?x deps_label" by (simp add: startswith_def deps_label_def)
  have a2: "whl_module_filter (strip (remove_all deps_label ?x)) = None"
    by (simp add: parse_eval char_eval)
  have a3: "\<not> no_punctuation (strip (remove_all deps_label ?x))"
    by (simp add: parse_eval char_eval)
  have b1: "startswith ''Requires-Dist: a b'' deps_label" by (simp add: startswith_def deps_label_def)
  have b2: "whl_module_filter (strip (remove_all deps_label ''Requires-Dist: a b'')) = None"
    by (simp add: parse_eval char_eval)
  have b3: "strip (remove_all deps_label ''Requires-Dist: a b'') = ''a b''"
    by (simp add: parse_eval char_eval)
  have b4: "no_punctuation ''a b''" by (simp add: no_punctuation_def)
  have n: "whl_lines_deps [] = []" by (simp add: whl_lines_deps_def)
  have c1: "whl_lines_deps ([''Requires-Dist: bar''] @ ?x # [])
     = [Some \<lparr>name = ''bar'', version_requirements = []\<rparr>, None]"
    using whl_dependency_lines [of ?x "[''Requires-Dist: bar'']" "[]"] a1 a2 a3 n by simp
  have c2: "whl_lines_deps ([] @ ''Requires-Dist: a b'' # []) = [Some (InstallModule1 ''a b'')]"
    using whl_dependency_lines [of "''Requires-Dist: a b''" "[]" "[]"] b1 b2 b3 b4 n by simp
  have d1: "split_char CHR ''-'' (after_last_slash ''/cache/lib-2.0-py3-none-any.whl'')
     = ''lib'' # ''2.0'' # [''py3'', ''none'', ''any.whl'']"
    by (simp add: after_last_slash_def split_char.simps)
  have d2: "zip_lines example_env ''/cache/lib-2.0-py3-none-any.whl''
              (''lib'' @ ''-'' @ ''2.0'' @ ''.dist-info/METADATA'')
              = Inr [''Name: lib'', ''Requires-Dist: util'']"
    by (simp add: example_env_def)
  have c3: "get_whl_dependencies example_env ''/cache/lib-2.0-py3-none-any.whl''
     = Inr (whl_lines_deps [''Name: lib'', ''Requires-Dist: util''])"
    using whl_dependency_lines
            [of _ _ _ "''/cache/lib-2.0-py3-none-any.whl''" "''lib''" "''2.0''"
                "[''py3'', ''none'', ''any.whl'']" example_env "[''Name: lib'', ''Requires-Dist: util'']"]
          d1 d2
    by blast
  show ?thesis using a1 a2 b1 b2 c1 c2 c3 d1 by blast
qed

subsection \<open>The metadata cache\<close>

lemmas fetch_eval = get_project_json_def get_response_def fix_301_text_def fix_301_json_def
  text2json_def check_301_text_def check_301_json_def match_301_at_def is_301_char_def
  is_dict_def max_count_def startswith_def Let_def

lemma get_project_json_stores:
  assumes "api_cache s project = None"
    and "get_project_json env s project = (Inr response, s')"
  shows "api_cache s' project = Some response"
  using assms
  by (auto simp: get_project_json_def Let_def split: prod.splits sum.splits)

text \<open>
  C9: a name in the cache (a cached \<open>None\<close> included) is answered from the cache,
  and the state, with its list of requests to the index, stays as it is; a fetch of a
  name that is not in the cache stores what it returns before it returns, so that the
  next fetch of the name finds it there.
\<close>

theorem get_project_json_cache:
  "(api_cache s project = Some cached \<longrightarrow> get_project_json env s project = (Inr cached, s)) \<and>
   (api_cache s project = None \<and> get_project_json env s project = (Inr response, s') \<longrightarrow>
      api_cache s' project = Some response \<and>
      get_project_json env s' project = (Inr response, s'))"
proof (intro conjI impI)
  assume "api_cache s project = Some cached"
  then show "get_project_json env s project = (Inr cached, s)"
    by (simp add: get_project_json_def)
next
  assume a: "api_cache s project = None \<and> get_project_json env s project = (Inr response, s')"
  then show "api_cache s' project = Some response"
    using get_project_json_stores by blast
next
  assume a: "api_cache s project = None \<and> get_project_json env s project = (Inr response, s')"
  then have "api_cache s' project = Some response"
    using get_project_json_stores by blast
  then show "get_project_json env s' project = (Inr response, s')"
    by (simp add: get_project_json_def)
qed

theorem get_project_json_cache_witness:
  "api_cache empty_state ''ghost'' = None \<and>
   get_project_json example_env empty_state ''ghost''
     = (Inr JNull, \<lparr>api_cache = [''ghost'' \<mapsto> JNull], requests = [''ghost'']\<rparr>) \<and>
   api_cache \<lparr>api_cache = [''ghost'' \<mapsto> JNull], requests = [''ghost'']\<rparr> ''ghost'' = Some JNull \<and>
   get_project_json example_env \<lparr>api_cache = [''ghost'' \<mapsto> JNull], requests = [''ghost'']\<rparr> ''ghost''
     = (Inr JNull, \<lparr>api_cache = [''ghost'' \<mapsto> JNull], requests = [''ghost'']\<rparr>)"
proof -
  let ?s' = "\<lparr>api_cache = [''ghost'' \<mapsto> JNull], requests = [''ghost'']\<rparr>"
  have a: "api_cache empty_state ''ghost'' = None" by (simp add: empty_state_def)
  have b: "get_project_json example_env empty_state ''ghost'' = (Inr JNull, ?s')"
    by (simp add: fetch_eval example_env_def empty_state_def redirect_loop.simps)
  have "api_cache ?s' ''ghost'' = Some JNull \<and>
        get_project_json example_env ?s' ''ghost'' = (Inr JNull, ?s')"
    using get_project_json_cache [of empty_state "''ghost''" _ example_env JNull ?s'] a b
    by blast
  then show ?thesis using a b by blast
qed

subsection \<open>Redirects\<close>

text \<open>
  C3 at an index that answers every request with the "moved permanently" document:
  after the twenty rounds of the loop the object is still that document, and since
  it is a dictionary \<open>get_project_json\<close> caches and returns it as the project's
  metadata. The index was asked 22 times: once for the project, once by the first
  \<open>fix_301_text\<close>, and once in every round.
\<close>

theorem get_project_json_moved_forever:
  "fst (get_project_json moved_env empty_state ''foo'') = Inr moved_doc \<and>
   check_301_json moved_doc \<and>
   api_cache (snd (get_project_json moved_env empty_state ''foo'')) ''foo'' = Some moved_doc \<and>
   length (requests (snd (get_project_json moved_env empty_state ''foo''))) = 22"
  by (simp add: fetch_eval json_eval redirect_loop.simps char_eval)

subsection \<open>Metadata that could not be fetched\<close>

lemmas url_eval = get_module_url_def get_url_def finders_def find_whl_def find_source_def
  find_module_file_def LooseVersion_of_def sort_releases_def sorted_desc_def comparable_def
  is_match_version_def download_module_def path_join_def after_last_slash_def endswith_def

text \<open>
  C1, as the code has it: when the fetch of a request's metadata yields \<open>None\<close>,
  \<open>get_module_url\<close> does not return to its caller. It raises \<open>SystemExit(1)\<close>, which
  leaves \<open>download_module\<close>, \<open>get_module_recursive\<close> and the loop over the
  dependencies: the dependencies that follow are not visited.
\<close>

theorem null_metadata_exits:
  "get_project_json env s (name modul) = (Inr JNull, s1) \<longrightarrow>
     get_module_url env s modul = (Inl (SystemExit 1), s1) \<and>
     download_module env s modul = (Inl (SystemExit 1), s1) \<and>
     get_module_recursive (Suc fuel) env s modul depth = Some (Inl (SystemExit 1), s1) \<and>
     deps_loop (Suc fuel) env s (Some modul # deps) depth found = Some (Inl (SystemExit 1), s1)"
proof
  assume a: "get_project_json env s (name modul) = (Inr JNull, s1)"
  then have u: "get_module_url env s modul = (Inl (SystemExit 1), s1)"
    by (simp add: get_module_url_def)
  then have d: "download_module env s modul = (Inl (SystemExit 1), s1)"
    by (simp add: download_module_def)
  have r: "get_module_recursive (Suc k) env s modul d = Some (Inl (SystemExit 1), s1)" for k d
    using d by simp
  have l: "deps_loop (Suc fuel) env s (Some modul # deps) depth found = Some (Inl (SystemExit 1), s1)"
    using r [of fuel "depth - 1"] by simp
  show "get_module_url env s modul = (Inl (SystemExit 1), s1) \<and>
     download_module env s modul = (Inl (SystemExit 1), s1) \<and>
     get_module_recursive (Suc fuel) env s modul depth = Some (Inl (SystemExit 1), s1) \<and>
     deps_loop (Suc fuel) env s (Some modul # deps) depth found = Some (Inl (SystemExit 1), s1)"
    using u d r [of fuel depth] l by blast
qed

lemma ghost_fetch:
  "get_project_json example_env empty_state ''ghost''
     = (Inr JNull, \<lparr>api_cache = [''ghost'' \<mapsto> JNull], requests = [''ghost'']\<rparr>)"
  by (simp add: fetch_eval example_env_def empty_state_def redirect_loop.simps)

theorem null_metadata_exits_witness:
  "get_project_json example_env empty_state (name (InstallModule1 ''ghost''))
     = (Inr JNull, \<lparr>api_cache = [''ghost'' \<mapsto> JNull], requests = [''ghost'']\<rparr>) \<and>
   get_module_url example_env empty_state (InstallModule1 ''ghost'')
     = (Inl (SystemExit 1), \<lparr>api_cache = [''ghost'' \<mapsto> JNull], requests = [''ghost'']\<rparr>) \<and>
   deps_loop (Suc 1) example_env empty_state
       (Some (InstallModule1 ''ghost'') # [Some (InstallModule1 ''util'')]) (- 1) []
     = Some (Inl (SystemExit 1), \<lparr>api_cache = [''ghost'' \<mapsto> JNull], requests = [''ghost'']\<rparr>)"
proof -
  have a: "get_project_json example_env empty_state (name (InstallModule1 ''ghost''))
     = (Inr JNull, \<lparr>api_cache = [''ghost'' \<mapsto> JNull], requests = [''ghost'']\<rparr>)"
    using ghost_fetch by (simp add: InstallModule1_def)
  show ?thesis
    using null_metadata_exits
            [where env = example_env and s = empty_state and modul = "InstallModule1 ''ghost''"
               and fuel = 1 and deps = "[Some (InstallModule1 ''util'')]" and depth = "- 1"
               and found = "[]"] a
    by blast
qed

text \<open>
  C1 as stated fails: for a project the index does not know, the metadata is \<open>None\<close>
  and \<open>get_module_url\<close> raises \<open>SystemExit(1)\<close> instead of reporting the request as
  unresolvable; the sibling \<open>util\<close> that follows in the list is never requested.
\<close>

theorem null_metadata_counterexample:
  "fst (get_project_json example_env empty_state ''ghost'') = Inr JNull \<and>
   fst (get_module_url example_env empty_state (InstallModule1 ''ghost'')) = Inl (SystemExit 1) \<and>
   deps_loop 2 example_env empty_state
       [Some (InstallModule1 ''ghost''), Some (InstallModule1 ''util'')] (- 1) []
     = Some (Inl (SystemExit 1), \<lparr>api_cache = [''ghost'' \<mapsto> JNull], requests = [''ghost'']\<rparr>)"
proof -
  have a: "get_module_url example_env empty_state (InstallModule1 ''ghost'')
     = (Inl (SystemExit 1), \<lparr>api_cache = [''ghost'' \<mapsto> JNull], requests = [''ghost'']\<rparr>)"
    using ghost_fetch by (simp add: get_module_url_def InstallModule1_def)
  then have "download_module example_env empty_state (InstallModule1 ''ghost'')
     = (Inl (SystemExit 1), \<lparr>api_cache = [''ghost'' \<mapsto> JNull], requests = [''ghost'']\<rparr>)"
    by (simp add: download_module_def)
  then have "deps_loop (Suc (Suc 0)) example_env empty_state
       [Some (InstallModule1 ''ghost''), Some (InstallModule1 ''util'')] (- 1) []
     = Some (Inl (SystemExit 1), \<lparr>api_cache = [''ghost'' \<mapsto> JNull], requests = [''ghost'']\<rparr>)"
    by simp
  then show ?thesis using a ghost_fetch by (simp add: numeral_2_eq_2)
qed

subsection \<open>A latest version that fails the constraints\<close>

text \<open>
  C2 at the project \<open>lib\<close>, whose latest version is 2.0, requested with the
  constraint \<open>< 2.0\<close>: the latest version fails the constraint and the version 1.0
  satisfies it, and \<open>get_module_url\<close> returns the wheel of the version 2.0, found in
  the list \<open>urls\<close>, which \<open>get_url\<close> searches without a test of the constraints.
\<close>

theorem get_module_url_ignores_constraint:
  "is_match_version (LooseVersion ''2.0'')
     [\<lparr>version = Some (LooseVersion ''2.0''), operator = ''<''\<rparr>] = Inr False \<and>
   is_match_version (LooseVersion ''1.0'')
     [\<lparr>version = Some (LooseVersion ''2.0''), operator = ''<''\<rparr>] = Inr True \<and>
   fst (get_module_url example_env empty_state
          \<lparr>name = ''lib'',
            version_requirements = [\<lparr>version = Some (LooseVersion ''2.0''), operator = ''<''\<rparr>]\<rparr>)
     = Inr (JStr ''https://files/lib-2.0-py3-none-any.whl'')"
  by (simp add: fetch_eval json_eval url_eval version_eval redirect_loop.simps)

subsection \<open>The cache only grows\<close>

lemma get_response_cache: "get_response env s n = (t, s') \<Longrightarrow> api_cache s' = api_cache s"
  by (auto simp: get_response_def)

lemma fix_301_text_cache: "fix_301_text env s x = (r, s') \<Longrightarrow> api_cache s' = api_cache s"
  by (auto simp: fix_301_text_def get_response_def Let_def split: json.splits option.splits)

lemma fix_301_json_cache: "fix_301_json env s x = (r, s') \<Longrightarrow> api_cache s' = api_cache s"
  by (auto simp: fix_301_json_def get_response_def Let_def
           split: json.splits option.splits sum.splits)

lemma redirect_loop_cache:
  "redirect_loop env count s obj = (r, s') \<Longrightarrow> api_cache s' = api_cache s"
proof (induction env count s obj arbitrary: r s' rule: redirect_loop.induct)
  case (1 env count s obj)
  show ?case
  proof (cases "count < max_count")
    case False
    then show ?thesis using "1.prems" by (simp add: redirect_loop.simps)
  next
    case lt: True
    show ?thesis
    proof (cases "check_301_text obj")
      case True
      obtain x y where f: "fix_301_text env s obj = (x, y)" by (cases "fix_301_text env s obj")
      have c: "api_cache y = api_cache s" using f by (rule fix_301_text_cache)
      show ?thesis
      proof (cases x)
        case (Inl e)
        then show ?thesis using "1.prems" lt True f c by (simp add: redirect_loop.simps)
      next
        case (Inr b)
        then have "redirect_loop env (count + 1) y b = (r, s')"
          using "1.prems" lt True f by (simp add: redirect_loop.simps)
        then have "api_cache s' = api_cache y"
          using "1.IH"(1) [OF lt True f [symmetric] Inr] by blast
        then show ?thesis using c by simp
      qed
    next
      case nt: False
      show ?thesis
      proof (cases "check_301_json obj")
        case False
        then show ?thesis using "1.prems" lt nt by (simp add: redirect_loop.simps)
      next
        case True
        obtain x y where f: "fix_301_json env s obj = (x, y)" by (cases "fix_301_json env s obj")
        have c: "api_cache y = api_cache s" using f by (rule fix_301_json_cache)
        show ?thesis
        proof (cases x)
          case (Inl e)
          then show ?thesis using "1.prems" lt nt True f c by (simp add: redirect_loop.simps)
        next
          case (Inr b)
          then have "redirect_loop env (count + 1) y b = (r, s')"
            using "1.prems" lt nt True f by (simp add: redirect_loop.simps)
          then have "api_cache s' = api_cache y"
            using "1.IH"(2) [OF lt nt True f [symmetric] Inr] by blast
          then show ?thesis using c by simp
        qed
      qed
    qed
  qed
qed

lemma get_project_json_mono:
  assumes "get_project_json env s project = (r, s')"
  shows "api_cache s \<subseteq>\<^sub>m api_cache s'"
proof (cases "api_cache s project")
  case (Some cached)
  then show ?thesis using assms by (simp add: get_project_json_def)
next
  case None
  obtain body s1 where g: "get_response env s project = (body, s1)"
    by (cases "get_response env s project")
  obtain x s2 where f: "fix_301_text env s1 (JStr body) = (x, s2)"
    by (cases "fix_301_text env s1 (JStr body)")
  have c2: "api_cache s2 = api_cache s"
    using get_response_cache [OF g] fix_301_text_cache [OF f] by simp
  show ?thesis
  proof (cases x)
    case (Inl e)
    then show ?thesis using assms None g f c2 by (auto simp: get_project_json_def)
  next
    case (Inr obj)
    obtain x3 s3 where l: "redirect_loop env 0 s2 obj = (x3, s3)"
      by (cases "redirect_loop env 0 s2 obj")
    have c3: "api_cache s3 = api_cache s" using redirect_loop_cache [OF l] c2 by simp
    show ?thesis
    proof (cases x3)
      case (Inl e)
      then show ?thesis using assms None g f Inr l c3 by (auto simp: get_project_json_def)
    next
      case r3: (Inr obj')
      have "api_cache s \<subseteq>\<^sub>m (api_cache s)(project \<mapsto> v)" for v
        using None by (auto simp: map_le_def)
      then show ?thesis
        using assms None g f Inr l r3 c3 by (auto simp: get_project_json_def Let_def)
    qed
  qed
qed

lemma get_project_json_cached_after:
  assumes "get_project_json env s project = (Inr v, s')"
  shows "api_cache s' project = Some v"
proof (cases "api_cache s project")
  case None
  then show ?thesis using assms get_project_json_stores by blast
next
  case (Some cached)
  then show ?thesis using assms by (simp add: get_project_json_def)
qed

lemma get_project_json_stable:
  assumes "get_project_json env s project = (Inr v, s1)"
    and "api_cache s1 \<subseteq>\<^sub>m api_cache s2"
  shows "get_project_json env s2 project = (Inr v, s2)"
proof -
  have "api_cache s1 project = Some v" using assms(1) by (rule get_project_json_cached_after)
  then have "api_cache s2 project = Some v"
    using assms(2) by (auto simp: map_le_def dom_def)
  then show ?thesis by (simp add: get_project_json_def)
qed

lemma get_module_url_mono:
  assumes "get_module_url env s modul = (r, s')"
  shows "api_cache s \<subseteq>\<^sub>m api_cache s'"
proof -
  obtain x y where g: "get_project_json env s (name modul) = (x, y)"
    by (cases "get_project_json env s (name modul)")
  then have "s' = y"
    using assms by (cases x) (auto simp: get_module_url_def split: if_splits)
  then show ?thesis using get_project_json_mono [OF g] by simp
qed

lemma get_module_url_stable:
  assumes "get_module_url env s modul = (Inr url, s1)"
    and "api_cache s1 \<subseteq>\<^sub>m api_cache s2"
  shows "get_module_url env s2 modul = (Inr url, s2)"
proof -
  obtain x y where g: "get_project_json env s (name modul) = (x, y)"
    by (cases "get_project_json env s (name modul)")
  then obtain project where x: "x = Inr project" and y: "y = s1"
    using assms(1) by (cases x) (auto simp: get_module_url_def split: if_splits)
  have g2: "get_project_json env s2 (name modul) = (Inr project, s2)"
    using get_project_json_stable [of env s "name modul" project s1 s2] g x y assms(2) by simp
  show ?thesis
    using assms(1) g x y g2 by (auto simp: get_module_url_def split: if_splits)
qed

lemma download_module_mono:
  assumes "download_module env s modul = (r, s')"
  shows "api_cache s \<subseteq>\<^sub>m api_cache s'"
proof -
  obtain x y where g: "get_module_url env s modul = (x, y)"
    by (cases "get_module_url env s modul")
  then have "s' = y"
    using assms by (cases x) (auto simp: download_module_def split: if_splits json.splits)
  then show ?thesis using get_module_url_mono [OF g] by simp
qed

lemma download_module_stable:
  assumes "download_module env s modul = (Inr r, s1)"
    and "api_cache s1 \<subseteq>\<^sub>m api_cache s2"
  shows "download_module env s2 modul = (Inr r, s2)"
proof -
  obtain x y where g: "get_module_url env s modul = (x, y)"
    by (cases "get_module_url env s modul")
  then obtain url where x: "x = Inr url" and y: "y = s1"
    using assms(1) by (cases x) (auto simp: download_module_def split: if_splits json.splits)
  have g2: "get_module_url env s2 modul = (Inr url, s2)"
    using get_module_url_stable [of env s modul url s1 s2] g x y assms(2) by simp
  show ?thesis
    using assms(1) g x y g2 by (auto simp: download_module_def split: if_splits json.splits)
qed

subsection \<open>What a run collects\<close>

lemma tuples_of_tagged: "tuples_of (map (\<lambda>(p, k). Tup p k) ts) = Some ts"
  by (induction ts) auto

lemma depends_onD:
  assumes "depends_on env s X Y"
  shows "Y \<noteq> [] \<and> (\<exists>deps dep. get_dependencies env X = Inr deps \<and> Some dep \<in> set deps \<and>
           fst (download_module env s dep) = Inr (Some Y))"
proof -
  have y: "Y \<noteq> []" using assms by (simp add: depends_on_def)
  obtain deps where d: "get_dependencies env X = Inr deps"
    and e: "list_ex (\<lambda>dep. case dep of None \<Rightarrow> False
                | Some modul \<Rightarrow> fst (download_module env s modul) = Inr (Some Y)) deps"
    using assms by (cases "get_dependencies env X") (auto simp: depends_on_def)
  from e obtain dep0 where m: "dep0 \<in> set deps"
    and p: "case dep0 of None \<Rightarrow> False
              | Some modul \<Rightarrow> fst (download_module env s modul) = Inr (Some Y)"
    by (auto simp: list_ex_iff)
  from p obtain dep where "dep0 = Some dep" and "fst (download_module env s dep) = Inr (Some Y)"
    by (cases dep0) auto
  then show ?thesis using y d m by blast
qed

lemma resolve_closed_module:
  "d < 0 \<Longrightarrow> get_module_recursive fuel env s m d = Some (Inr res, s') \<Longrightarrow>
     api_cache s \<subseteq>\<^sub>m api_cache s' \<and>
     (\<exists>ts. res = map (\<lambda>(p, k). Tup p k) ts \<and>
        (\<forall>s''. api_cache s' \<subseteq>\<^sub>m api_cache s'' \<longrightarrow>
           (\<forall>X k Y. (X, k) \<in> set ts \<and> depends_on env s'' X Y \<longrightarrow> (Y, k - 1) \<in> set ts) \<and>
           (\<forall>Y. fst (download_module env s'' m) = Inr (Some Y) \<and> Y \<noteq> [] \<longrightarrow> (Y, d) \<in> set ts)))"
  and resolve_closed_deps:
  "d \<le> 0 \<Longrightarrow> deps_loop fuel env s deps d found = Some (Inr res, s') \<Longrightarrow>
     api_cache s \<subseteq>\<^sub>m api_cache s' \<and>
     (\<exists>ts. res = found @ map (\<lambda>(p, k). Tup p k) ts \<and>
        (\<forall>s''. api_cache s' \<subseteq>\<^sub>m api_cache s'' \<longrightarrow>
           (\<forall>X k Y. (X, k) \<in> set ts \<and> depends_on env s'' X Y \<longrightarrow> (Y, k - 1) \<in> set ts) \<and>
           (\<forall>dep Y. Some dep \<in> set deps \<and> fst (download_module env s'' dep) = Inr (Some Y)
                      \<and> Y \<noteq> [] \<longrightarrow> (Y, d - 1) \<in> set ts)))"
proof (induction fuel env s m d and fuel env s deps d found arbitrary: res s' and res s'
       rule: get_module_recursive_deps_loop.induct)
  case (1 env s modul depth)
  then show ?case by simp
next
  case (2 fuel env s modul depth)
  obtain x y where dl: "download_module env s modul = (x, y)"
    by (cases "download_module env s modul")
  have my: "api_cache s \<subseteq>\<^sub>m api_cache y" using dl by (rule download_module_mono)
  from "2.prems"(2) dl obtain b where x: "x = Inr b"
    by (cases x) auto
  have stable: "fst (download_module env s'' modul) = Inr b" if "api_cache y \<subseteq>\<^sub>m api_cache s''" for s''
    using download_module_stable [of env s modul b y s''] dl x that by simp
  show ?case
  proof (cases "\<exists>fpath. b = Some fpath \<and> fpath \<noteq> []")
    case False
    then have r: "res = []" and s': "s' = y"
      using "2.prems"(2) dl x by (cases b; auto)+
    have "\<not> (fst (download_module env s'' modul) = Inr (Some Y) \<and> Y \<noteq> [])"
      if "api_cache s' \<subseteq>\<^sub>m api_cache s''" for s'' Y
      using stable [of s''] that s' False by auto
    then show ?thesis using r s' my by auto
  next
    case True
    then obtain fpath where b: "b = Some fpath" and ne: "fpath \<noteq> []" by blast
    from "2.prems"(2) dl x b ne obtain deps where gd: "get_dependencies env fpath = Inr deps"
      by (cases "get_dependencies env fpath") auto
    from "2.prems"(2) dl x b ne gd "2.prems"(1) obtain found where
      lp: "deps_loop fuel env y deps depth [] = Some (Inr found, s')"
      and r: "res = Tup fpath depth # found"
      by (auto split: option.splits sum.splits prod.splits)
    have le: "depth \<le> 0" using "2.prems"(1) by simp
    from "2.IH" [OF dl [symmetric] x b ne gd le lp]
    obtain ts where ms: "api_cache y \<subseteq>\<^sub>m api_cache s'"
      and f: "found = map (\<lambda>(p, k). Tup p k) ts"
      and cl: "\<And>s''. api_cache s' \<subseteq>\<^sub>m api_cache s'' \<Longrightarrow>
           (\<forall>X k Y. (X, k) \<in> set ts \<and> depends_on env s'' X Y \<longrightarrow> (Y, k - 1) \<in> set ts) \<and>
           (\<forall>dep Y. Some dep \<in> set deps \<and> fst (download_module env s'' dep) = Inr (Some Y)
                      \<and> Y \<noteq> [] \<longrightarrow> (Y, depth - 1) \<in> set ts)"
      by auto
    let ?ts = "(fpath, depth) # ts"
    have r': "res = map (\<lambda>(p, k). Tup p k) ?ts" using r f by simp
    have mono: "api_cache s \<subseteq>\<^sub>m api_cache s'" using my ms by (rule map_le_trans)
    have "(\<forall>X k Y. (X, k) \<in> set ?ts \<and> depends_on env s'' X Y \<longrightarrow> (Y, k - 1) \<in> set ?ts) \<and>
          (\<forall>Y. fst (download_module env s'' modul) = Inr (Some Y) \<and> Y \<noteq> [] \<longrightarrow> (Y, depth) \<in> set ?ts)"
      if le': "api_cache s' \<subseteq>\<^sub>m api_cache s''" for s''
    proof (intro conjI allI impI)
      fix X k Y
      assume a: "(X, k) \<in> set ?ts \<and> depends_on env s'' X Y"
      show "(Y, k - 1) \<in> set ?ts"
      proof (cases "(X, k) \<in> set ts")
        case True
        then show ?thesis using cl [OF le'] a by auto
      next
        case False
        then have xk: "X = fpath" "k = depth" using a by auto
        from depends_onD [of env s'' X Y] a obtain deps' dep where
          "Y \<noteq> []" "get_dependencies env X = Inr deps'" "Some dep \<in> set deps'"
          "fst (download_module env s'' dep) = Inr (Some Y)"
          by blast
        then have "(Y, depth - 1) \<in> set ts"
          using cl [OF le'] gd xk by auto
        then show ?thesis using xk by simp
      qed
    next
      fix Y
      assume "fst (download_module env s'' modul) = Inr (Some Y) \<and> Y \<noteq> []"
      moreover have "api_cache y \<subseteq>\<^sub>m api_cache s''" using ms le' by (rule map_le_trans)
      ultimately have "Y = fpath" using stable [of s''] b by simp
      then show "(Y, depth) \<in> set ?ts" by simp
    qed
    then show ?thesis using r' mono by blast
  qed
next
  case (3 fuel env s depth found)
  then show ?case by auto
next
  case (4 fuel env s deps depth found)
  then show ?case by auto
next
  case (5 fuel env s dep deps depth found)
  from "5.prems"(2) obtain dm s1 where
    g: "get_module_recursive fuel env s dep (depth - 1) = Some (Inr dm, s1)"
    and lp: "deps_loop fuel env s1 deps depth (found @ dm) = Some (Inr res, s')"
    by (auto split: option.splits sum.splits prod.splits)
  have lt: "depth - 1 < 0" using "5.prems"(1) by simp
  from "5.IH"(1) [OF lt g]
  obtain ts1 where m1: "api_cache s \<subseteq>\<^sub>m api_cache s1"
    and d1: "dm = map (\<lambda>(p, k). Tup p k) ts1"
    and c1: "\<And>s''. api_cache s1 \<subseteq>\<^sub>m api_cache s'' \<Longrightarrow>
           (\<forall>X k Y. (X, k) \<in> set ts1 \<and> depends_on env s'' X Y \<longrightarrow> (Y, k - 1) \<in> set ts1) \<and>
           (\<forall>Y. fst (download_module env s'' dep) = Inr (Some Y) \<and> Y \<noteq> [] \<longrightarrow> (Y, depth - 1) \<in> set ts1)"
    by auto
  from "5.IH"(2) [OF g refl refl "5.prems"(1) lp]
  obtain ts2 where m2: "api_cache s1 \<subseteq>\<^sub>m api_cache s'"
    and d2: "res = (found @ dm) @ map (\<lambda>(p, k). Tup p k) ts2"
    and c2: "\<And>s''. api_cache s' \<subseteq>\<^sub>m api_cache s'' \<Longrightarrow>
           (\<forall>X k Y. (X, k) \<in> set ts2 \<and> depends_on env s'' X Y \<longrightarrow> (Y, k - 1) \<in> set ts2) \<and>
           (\<forall>dep Y. Some dep \<in> set deps \<and> fst (download_module env s'' dep) = Inr (Some Y)
                      \<and> Y \<noteq> [] \<longrightarrow> (Y, depth - 1) \<in> set ts2)"
    by auto
  let ?ts = "ts1 @ ts2"
  have r: "res = found @ map (\<lambda>(p, k). Tup p k) ?ts" using d1 d2 by simp
  have mono: "api_cache s \<subseteq>\<^sub>m api_cache s'" using m1 m2 by (rule map_le_trans)
  have "(\<forall>X k Y. (X, k) \<in> set ?ts \<and> depends_on env s'' X Y \<longrightarrow> (Y, k - 1) \<in> set ?ts) \<and>
        (\<forall>dep' Y. Some dep' \<in> set (Some dep # deps) \<and> fst (download_module env s'' dep') = Inr (Some Y)
                      \<and> Y \<noteq> [] \<longrightarrow> (Y, depth - 1) \<in> set ?ts)"
    if le': "api_cache s' \<subseteq>\<^sub>m api_cache s''" for s''
  proof -
    have le1: "api_cache s1 \<subseteq>\<^sub>m api_cache s''" using m2 le' by (rule map_le_trans)
    show ?thesis using c1 [OF le1] c2 [OF le'] by auto
  qed
  then show ?case using r mono by blast
qed

subsection \<open>The order of the top-level result\<close>

lemma dependency_comes_first:
  fixes T :: "(string \<times> int) list"
  assumes X: "X \<in> fst ` set T"
    and cl: "\<forall>k. (X, k) \<in> set T \<longrightarrow> (Y, k - 1) \<in> set T"
  shows "\<exists>pre post. clean_duplicated_files (map fst (sort_key snd T)) = pre @ X # post
           \<and> Y \<in> set pre"
proof -
  let ?S = "sort_key snd T"
  have srt: "sorted (map snd ?S)" by (rule sorted_sort_key)
  have st: "set ?S = set T" by simp
  have "\<exists>e \<in> set ?S. fst e = X" using X st by auto
  then obtain A e B where sp: "?S = A @ e # B" and fe: "fst e = X"
    and na: "\<forall>a \<in> set A. fst a \<noteq> X"
    using split_list_first_prop [of ?S "\<lambda>e. fst e = X"] by blast
  obtain k where e: "e = (X, k)" using fe by (cases e) auto
  have "(X, k) \<in> set ?S" using sp e by simp
  then have "(X, k) \<in> set T" using st by simp
  then have "(Y, k - 1) \<in> set T" using cl by blast
  then have yk: "(Y, k - 1) \<in> set (A @ e # B)" using st sp by simp
  have "sorted (map snd A @ k # map snd B)" using srt sp e by simp
  then have "\<forall>b \<in> set B. k \<le> snd b" by (auto simp: sorted_append)
  then have "(Y, k - 1) \<notin> set B" by force
  then have "(Y, k - 1) \<in> set A" using yk e by auto
  then have ya: "Y \<in> set (map fst A)" by force
  have xa: "X \<notin> set (map fst A)" using na by auto
  have "map fst ?S = map fst A @ X # map fst B" using sp e by simp
  then have "clean_duplicated_files (map fst ?S)
               = clean_duplicated_files (map fst A) @ X
                   # clean_duplicated_files (filter (\<lambda>x. x \<noteq> X \<and> x \<notin> set (map fst A)) (map fst B))"
    using clean_first_occurrence [OF xa] by simp
  moreover have "Y \<in> set (clean_duplicated_files (map fst A))" using ya by (simp add: clean_set)
  ultimately show ?thesis by blast
qed

lemma top_level_shape:
  assumes run: "get_module_recursive (Suc fuel) env s modul 0 = Some (Inr files, s')"
    and ne: "files \<noteq> []"
  shows "\<exists>module_file s1 deps found ts.
           download_module env s modul = (Inr (Some module_file), s1) \<and>
           module_file \<noteq> [] \<and>
           get_dependencies env module_file = Inr deps \<and>
           deps_loop fuel env s1 deps 0 [] = Some (Inr found, s') \<and>
           tuples_of found = Some ts \<and>
           files = map Str (clean_duplicated_files (map fst (sort_key snd ((module_file, 0) # ts))))"
proof -
  obtain x y where dl: "download_module env s modul = (x, y)"
    by (cases "download_module env s modul")
  from run dl obtain b where x: "x = Inr b" by (cases x) auto
  from run dl x ne obtain fpath where b: "b = Some fpath" and nf: "fpath \<noteq> []"
    by (cases b) (auto split: if_splits)
  from run dl x b nf obtain deps where gd: "get_dependencies env fpath = Inr deps"
    by (cases "get_dependencies env fpath") auto
  from run dl x b nf gd obtain found where
    lp: "deps_loop fuel env y deps 0 [] = Some (Inr found, s')"
    and r: "sort_and_clean fpath 0 found = Inr files"
    by (auto split: option.splits sum.splits prod.splits)
  from lp resolve_closed_deps [of 0 fuel env y deps "[]" found s']
  obtain ts where f: "found = map (\<lambda>(p, k). Tup p k) ts" by auto
  have t: "tuples_of found = Some ts" using f tuples_of_tagged by simp
  then have "files = map Str (clean_duplicated_files (map fst (sort_key snd ((fpath, 0) # ts))))"
    using r by (simp add: sort_and_clean_def)
  then show ?thesis using dl x b nf gd lp t by blast
qed

lemma top_level_dependency_first:
  assumes run: "get_module_recursive (Suc fuel) env s modul 0 = Some (Inr files, s')"
    and X: "Str X \<in> set files"
    and dep: "depends_on env s' X Y"
  shows "\<exists>pre post. files = pre @ Str X # post \<and> Str Y \<in> set pre"
proof -
  have ne: "files \<noteq> []" using X by auto
  from top_level_shape [OF run ne]
  obtain fpath s1 deps found ts where
    dl: "download_module env s modul = (Inr (Some fpath), s1)"
    and nf: "fpath \<noteq> []"
    and gd: "get_dependencies env fpath = Inr deps"
    and lp: "deps_loop fuel env s1 deps 0 [] = Some (Inr found, s')"
    and t: "tuples_of found = Some ts"
    and fs: "files = map Str (clean_duplicated_files (map fst (sort_key snd ((fpath, 0) # ts))))"
    by blast
  from resolve_closed_deps [of 0 fuel env s1 deps "[]" found s'] lp
  obtain ts' where f: "found = map (\<lambda>(p, k). Tup p k) ts'"
    and cl: "\<And>s''. api_cache s' \<subseteq>\<^sub>m api_cache s'' \<Longrightarrow>
           (\<forall>X k Y. (X, k) \<in> set ts' \<and> depends_on env s'' X Y \<longrightarrow> (Y, k - 1) \<in> set ts') \<and>
           (\<forall>dep Y. Some dep \<in> set deps \<and> fst (download_module env s'' dep) = Inr (Some Y)
                      \<and> Y \<noteq> [] \<longrightarrow> (Y, 0 - 1) \<in> set ts')"
    by auto
  have "ts' = ts" using f t tuples_of_tagged [of ts'] by simp
  note cl' = cl [OF map_le_refl, unfolded \<open>ts' = ts\<close>]
  let ?T = "(fpath, 0) # ts"
  have closed: "(Y, k - 1) \<in> set ?T" if "(X, k) \<in> set ?T" for k
  proof (cases "(X, k) \<in> set ts")
    case True
    then show ?thesis using cl' dep by auto
  next
    case False
    then have xk: "X = fpath" "k = 0" using that by auto
    from depends_onD [OF dep] obtain deps' d where
      "Y \<noteq> []" "get_dependencies env X = Inr deps'" "Some d \<in> set deps'"
      "fst (download_module env s' d) = Inr (Some Y)"
      by blast
    then have "(Y, 0 - 1) \<in> set ts" using cl' gd xk by auto
    then show ?thesis using xk by simp
  qed
  have "X \<in> set (clean_duplicated_files (map fst (sort_key snd ?T)))"
    using X fs by auto
  moreover have "set (clean_duplicated_files (map fst (sort_key snd ?T))) = fst ` set ?T"
    by (simp only: clean_set set_map set_sort)
  ultimately have "X \<in> fst ` set ?T" by simp
  from dependency_comes_first [OF this] closed
  obtain pre post where
    "clean_duplicated_files (map fst (sort_key snd ?T)) = pre @ X # post" and "Y \<in> set pre"
    by blast
  then have "files = map Str pre @ Str X # map Str post \<and> Str Y \<in> set (map Str pre)"
    using fs by simp
  then show ?thesis by blast
qed

lemmas run_eval = numeral_eq_Suc fetch_eval json_eval url_eval version_eval redirect_loop.simps
  deps_eval parse_eval sort_and_clean_def clean_duplicated_files_def resolved_state_def

lemma example_run_top:
  "get_module_recursive (Suc 3) example_env empty_state (InstallModule1 ''app'') 0
     = Some (Inr [Str ''/cache/util-0.1.tar.gz'', Str ''/cache/lib-2.0-py3-none-any.whl'',
                  Str ''/cache/app-1.0-py3-none-any.whl''], resolved_state)"
  by (simp add: run_eval)

lemma example_run_below:
  "get_module_recursive (Suc 3) example_env empty_state (InstallModule1 ''app'') (- 1)
     = Some (Inr [Tup ''/cache/app-1.0-py3-none-any.whl'' (- 1),
                  Tup ''/cache/lib-2.0-py3-none-any.whl'' (- 2),
                  Tup ''/cache/util-0.1.tar.gz'' (- 3),
                  Tup ''/cache/util-0.1.tar.gz'' (- 2)], resolved_state)"
  by (simp add: run_eval)

lemma example_depends:
  "depends_on example_env resolved_state
     ''/cache/app-1.0-py3-none-any.whl'' ''/cache/lib-2.0-py3-none-any.whl''"
  "depends_on example_env resolved_state
     ''/cache/app-1.0-py3-none-any.whl'' ''/cache/util-0.1.tar.gz''"
  "depends_on example_env resolved_state
     ''/cache/lib-2.0-py3-none-any.whl'' ''/cache/util-0.1.tar.gz''"
  by (simp_all add: depends_on_def run_eval)

subsection \<open>More fuel changes nothing\<close>

lemma more_fuel_module:
  "get_module_recursive fuel env s m d = Some r \<Longrightarrow>
     get_module_recursive (Suc fuel) env s m d = Some r"
  and more_fuel_deps:
  "deps_loop fuel env s deps d found = Some r \<Longrightarrow>
     deps_loop (Suc fuel) env s deps d found = Some r"
proof (induction fuel env s m d and fuel env s deps d found arbitrary: r and r
       rule: get_module_recursive_deps_loop.induct)
  case (1 env s modul depth)
  then show ?case by simp
next
  case (2 fuel env s modul depth)
  obtain x y where dl: "download_module env s modul = (x, y)"
    by (cases "download_module env s modul")
  show ?case
  proof (cases "\<exists>fpath deps. x = Inr (Some fpath) \<and> fpath \<noteq> [] \<and> get_dependencies env fpath = Inr deps")
    case False
    then have "get_module_recursive (Suc (Suc fuel)) env s modul depth
                 = get_module_recursive (Suc fuel) env s modul depth"
      using dl by (auto split: sum.splits option.splits)
    then show ?thesis using "2.prems" by simp
  next
    case True
    then obtain fpath deps where x: "x = Inr (Some fpath)" and nf: "fpath \<noteq> []"
      and gd: "get_dependencies env fpath = Inr deps" by blast
    from "2.prems" dl x nf gd obtain r' where
      l: "deps_loop fuel env y deps depth [] = Some r'"
      by (cases "deps_loop fuel env y deps depth []") auto
    have "deps_loop (Suc fuel) env y deps depth [] = Some r'"
      using "2.IH" [OF dl [symmetric] x refl nf gd l] .
    then show ?thesis using "2.prems" dl x nf gd l by simp
  qed
next
  case (3 fuel env s depth found)
  then show ?case by simp
next
  case (4 fuel env s deps depth found)
  then show ?case by simp
next
  case (5 fuel env s dep deps depth found)
  from "5.prems" obtain x2 where
    g: "get_module_recursive fuel env s dep (depth - 1) = Some x2"
    by (cases "get_module_recursive fuel env s dep (depth - 1)") auto
  have g': "get_module_recursive (Suc fuel) env s dep (depth - 1) = Some x2"
    using "5.IH"(1) [OF g] .
  obtain x y where x2: "x2 = (x, y)" by (cases x2)
  show ?case
  proof (cases x)
    case (Inl e)
    then show ?thesis
      using "5.prems" g x2 by (auto simp: g' simp del: get_module_recursive.simps)
  next
    case (Inr b)
    then have "deps_loop fuel env y deps depth (found @ b) = Some r"
      using "5.prems" g x2 by simp
    then have "deps_loop (Suc fuel) env y deps depth (found @ b) = Some r"
      using "5.IH"(2) [OF g x2 [symmetric] Inr] by blast
    then show ?thesis
      using x2 Inr by (auto simp: g' simp del: get_module_recursive.simps)
  qed
qed

subsection \<open>A run over an acyclic, resolvable graph returns\<close>

text \<open>
  The requests of a graph are a set \<open>G\<close>. The graph is resolvable when, in every
  state that satisfies an invariant \<open>I\<close>, \<open>download_module\<close> finds an archive for
  each request of \<open>G\<close> and keeps \<open>I\<close>, and the dependencies of the archive can be read
  and are requests of \<open>G\<close> again; it is acyclic when these dependencies have a smaller
  \<open>rank\<close>. Then \<open>rank\<close> bounds the depth of the calls.
\<close>

lemma resolve_returns_module:
  "\<forall>s m. I s \<and> m \<in> G \<longrightarrow>
      (\<exists>f s1 deps. download_module env s m = (Inr (Some f), s1) \<and> f \<noteq> [] \<and> I s1 \<and>
         get_dependencies env f = Inr deps \<and>
         (\<forall>dep. Some dep \<in> set deps \<longrightarrow> dep \<in> G \<and> rank dep < rank m)) \<Longrightarrow>
   I s \<Longrightarrow> m \<in> G \<Longrightarrow> rank m < fuel \<Longrightarrow> d < 0 \<Longrightarrow>
     \<exists>res s'. get_module_recursive fuel env s m d = Some (Inr res, s') \<and> I s'"
  and resolve_returns_deps:
  "\<forall>s m. I s \<and> m \<in> G \<longrightarrow>
      (\<exists>f s1 deps. download_module env s m = (Inr (Some f), s1) \<and> f \<noteq> [] \<and> I s1 \<and>
         get_dependencies env f = Inr deps \<and>
         (\<forall>dep. Some dep \<in> set deps \<longrightarrow> dep \<in> G \<and> rank dep < rank m)) \<Longrightarrow>
   I s \<Longrightarrow> (\<forall>dep. Some dep \<in> set deps \<longrightarrow> dep \<in> G \<and> rank dep < fuel) \<Longrightarrow> d \<le> 0 \<Longrightarrow>
     \<exists>res s'. deps_loop fuel env s deps d found = Some (Inr res, s') \<and> I s'"
proof (induction fuel env s m d and fuel env s deps d found
       rule: get_module_recursive_deps_loop.induct)
  case (1 env s modul depth)
  then show ?case by simp
next
  case (2 fuel env s modul depth)
  note step = "2.prems"(1)
  from step "2.prems"(2) "2.prems"(3)
  obtain f s1 deps where dl: "download_module env s modul = (Inr (Some f), s1)"
    and nf: "f \<noteq> []" and i1: "I s1" and gd: "get_dependencies env f = Inr deps"
    and sm: "\<forall>dep. Some dep \<in> set deps \<longrightarrow> dep \<in> G \<and> rank dep < rank modul"
    by blast
  have b: "\<forall>dep. Some dep \<in> set deps \<longrightarrow> dep \<in> G \<and> rank dep < fuel"
    using sm "2.prems"(4) by auto
  have le: "depth \<le> 0" using "2.prems"(5) by simp
  from "2.IH" [OF dl [symmetric] refl refl nf gd step i1 b le]
  obtain found s2 where "deps_loop fuel env s1 deps depth [] = Some (Inr found, s2)" and "I s2"
    by blast
  then show ?case using dl nf gd "2.prems"(5) by simp
next
  case (3 fuel env s depth found)
  then show ?case by simp
next
  case (4 fuel env s deps depth found)
  then show ?case by simp
next
  case (5 fuel env s dep deps depth found)
  note step = "5.prems"(1)
  have g: "dep \<in> G" and r: "rank dep < fuel" using "5.prems"(3) by auto
  have lt: "depth - 1 < 0" using "5.prems"(4) by simp
  from "5.IH"(1) [OF step "5.prems"(2) g r lt]
  obtain dm s1 where gm: "get_module_recursive fuel env s dep (depth - 1) = Some (Inr dm, s1)"
    and i1: "I s1" by blast
  have b: "\<forall>dep. Some dep \<in> set deps \<longrightarrow> dep \<in> G \<and> rank dep < fuel"
    using "5.prems"(3) by auto
  from "5.IH"(2) [OF gm refl refl step i1 b "5.prems"(4)]
  obtain res s' where "deps_loop fuel env s1 deps depth (found @ dm) = Some (Inr res, s')" and "I s'"
    by blast
  then show ?case using gm by (auto simp del: get_module_recursive.simps)
qed

lemma top_level_returns:
  assumes step: "\<forall>s m. I s \<and> m \<in> G \<longrightarrow>
      (\<exists>f s1 deps. download_module env s m = (Inr (Some f), s1) \<and> f \<noteq> [] \<and> I s1 \<and>
         get_dependencies env f = Inr deps \<and>
         (\<forall>dep. Some dep \<in> set deps \<longrightarrow> dep \<in> G \<and> rank dep < rank m))"
    and i: "I s" and g: "modul \<in> G"
  shows "\<exists>files s'. get_module_recursive (Suc (rank modul)) env s modul 0 = Some (Inr files, s')
           \<and> files \<noteq> []"
proof -
  from step i g
  obtain f s1 deps where dl: "download_module env s modul = (Inr (Some f), s1)"
    and nf: "f \<noteq> []" and i1: "I s1" and gd: "get_dependencies env f = Inr deps"
    and sm: "\<forall>dep. Some dep \<in> set deps \<longrightarrow> dep \<in> G \<and> rank dep < rank modul"
    by blast
  from resolve_returns_deps [OF step i1 sm, of 0 "[]"]
  obtain found s2 where lp: "deps_loop (rank modul) env s1 deps 0 [] = Some (Inr found, s2)"
    by auto
  from resolve_closed_deps [of 0 "rank modul" env s1 deps "[]" found s2] lp
  obtain ts where "found = map (\<lambda>(p, k). Tup p k) ts" by auto
  then have t: "tuples_of found = Some ts" by (simp add: tuples_of_tagged)
  let ?files = "map Str (clean_duplicated_files (map fst (sort_key snd ((f, 0) # ts))))"
  have run: "get_module_recursive (Suc (rank modul)) env s modul 0 = Some (Inr ?files, s2)"
    using dl nf gd lp t by (simp add: sort_and_clean_def)
  have "set (clean_duplicated_files (map fst (sort_key snd ((f, 0 :: int) # ts))))
          = fst ` set ((f, 0) # ts)"
    by (simp only: clean_set set_map set_sort)
  then have "clean_duplicated_files (map fst (sort_key snd ((f, 0 :: int) # ts))) \<noteq> []"
    by auto
  then have "?files \<noteq> []" by simp
  then show ?thesis using run by blast
qed

subsection \<open>The example graph is acyclic and resolvable\<close>

lemma example_fetch:
  assumes i: "api_cache s \<subseteq>\<^sub>m api_cache resolved_state"
    and n: "(n, doc) \<in> {(''app'', app_doc), (''lib'', lib_doc), (''util'', util_doc)}"
  shows "\<exists>s1. get_project_json example_env s n = (Inr doc, s1)
              \<and> api_cache s1 \<subseteq>\<^sub>m api_cache resolved_state"
proof (cases "api_cache s n")
  case (Some v)
  have "api_cache resolved_state n = Some doc"
    using n by (auto simp: resolved_state_def)
  then have "v = doc" using i Some by (auto simp: map_le_def dom_def)
  then show ?thesis using Some i by (simp add: get_project_json_def)
next
  case None
  have r: "api_cache resolved_state n = Some doc"
    using n by (auto simp: resolved_state_def)
  have d: "is_dict doc \<and> \<not> check_301_text doc \<and> \<not> check_301_json doc"
    using n by (auto simp: json_eval is_dict_def check_301_text_def check_301_json_def)
  have l: "json_loads example_env n = Some doc \<and> search_301 n = None
             \<and> curl_response example_env (requests s) n = n"
    using n by (auto simp: example_env_def match_301_at_def startswith_def)
  have "get_project_json example_env s n
          = (Inr doc, s\<lparr>requests := requests s @ [n], api_cache := (api_cache s)(n \<mapsto> doc)\<rparr>)"
    using None d l
    by (simp add: get_project_json_def get_response_def fix_301_text_def text2json_def
          redirect_loop.simps max_count_def)
  moreover have "(api_cache s)(n \<mapsto> doc) \<subseteq>\<^sub>m api_cache resolved_state"
    using i r by (auto simp: map_le_def)
  ultimately show ?thesis by simp
qed

lemmas locate_eval = get_url_def finders_def find_whl_def find_source_def find_module_file_def
  LooseVersion_of_def sort_releases_def sorted_desc_def comparable_def is_match_version_def
  path_join_def after_last_slash_def endswith_def startswith_def

lemma example_download:
  assumes i: "api_cache s \<subseteq>\<^sub>m api_cache resolved_state"
    and m: "(m, doc, p) \<in>
      {(InstallModule1 ''app'', app_doc, ''/cache/app-1.0-py3-none-any.whl''),
       (\<lparr>name = ''lib'',
         version_requirements = [\<lparr>version = Some (LooseVersion ''1.0''), operator = ''>=''\<rparr>]\<rparr>,
        lib_doc, ''/cache/lib-2.0-py3-none-any.whl''),
       (InstallModule1 ''util'', util_doc, ''/cache/util-0.1.tar.gz'')}"
  shows "\<exists>s1. download_module example_env s m = (Inr (Some p), s1)
              \<and> api_cache s1 \<subseteq>\<^sub>m api_cache resolved_state"
proof -
  have "(name m, doc) \<in> {(''app'', app_doc), (''lib'', lib_doc), (''util'', util_doc)}"
    using m by (auto simp: InstallModule1_def)
  from example_fetch [OF i this]
  obtain s1 where f: "get_project_json example_env s (name m) = (Inr doc, s1)"
    and i1: "api_cache s1 \<subseteq>\<^sub>m api_cache resolved_state" by blast
  have t: "truthy doc" using m by (auto simp: json_eval)
  have "bind_res (get_url example_env m doc ''whl'') (\<lambda>whl_url.
          if truthy whl_url then Inr whl_url else get_url example_env m doc ''source'')
        = Inr (JStr (''https://files/'' @ after_last_slash p))"
    using m
    by (auto simp: InstallModule1_def json_eval locate_eval version_eval)
  then have "get_module_url example_env s m
               = (Inr (JStr (''https://files/'' @ after_last_slash p)), s1)"
    using f t by (simp add: get_module_url_def)
  moreover have "path_join (cache_dir example_env)
                   (after_last_slash (''https://files/'' @ after_last_slash p)) = p"
    using m by (auto simp: example_env_def path_join_def after_last_slash_def
                           startswith_def endswith_def)
  ultimately have "download_module example_env s m = (Inr (Some p), s1)"
    by (simp add: download_module_def)
  then show ?thesis using i1 by blast
qed

lemma example_dependencies:
  "get_dependencies example_env ''/cache/app-1.0-py3-none-any.whl''
     = Inr [Some \<lparr>name = ''lib'',
                   version_requirements =
                     [\<lparr>version = Some (LooseVersion ''1.0''), operator = ''>=''\<rparr>]\<rparr>,
            Some (InstallModule1 ''util'')]"
  "get_dependencies example_env ''/cache/lib-2.0-py3-none-any.whl''
     = Inr [Some (InstallModule1 ''util'')]"
  "get_dependencies example_env ''/cache/util-0.1.tar.gz'' = Inr []"
  by (simp_all add: run_eval)

lemma example_graph:
  "\<forall>s m. api_cache s \<subseteq>\<^sub>m api_cache resolved_state \<and>
     m \<in> {InstallModule1 ''app'',
          \<lparr>name = ''lib'',
            version_requirements = [\<lparr>version = Some (LooseVersion ''1.0''), operator = ''>=''\<rparr>]\<rparr>,
          InstallModule1 ''util''} \<longrightarrow>
     (\<exists>f s1 deps. download_module example_env s m = (Inr (Some f), s1) \<and> f \<noteq> [] \<and>
        api_cache s1 \<subseteq>\<^sub>m api_cache resolved_state \<and>
        get_dependencies example_env f = Inr deps \<and>
        (\<forall>dep. Some dep \<in> set deps \<longrightarrow>
           dep \<in> {InstallModule1 ''app'',
                  \<lparr>name = ''lib'',
                    version_requirements =
                      [\<lparr>version = Some (LooseVersion ''1.0''), operator = ''>=''\<rparr>]\<rparr>,
                  InstallModule1 ''util''} \<and>
           (if name dep = ''app'' then 2 else if name dep = ''lib'' then 1 else 0 :: nat)
             < (if name m = ''app'' then 2 else if name m = ''lib'' then 1 else 0)))"
proof (intro allI impI, elim conjE)
  fix s :: state and m :: InstallModule
  let ?a = "InstallModule1 ''app''"
  let ?l = "\<lparr>name = ''lib'',
             version_requirements = [\<lparr>version = Some (LooseVersion ''1.0''), operator = ''>=''\<rparr>]\<rparr>"
  let ?u = "InstallModule1 ''util''"
  let ?rank = "\<lambda>m. if name m = ''app'' then 2 else if name m = ''lib'' then 1 else 0 :: nat"
  assume i: "api_cache s \<subseteq>\<^sub>m api_cache resolved_state" and m: "m \<in> {?a, ?l, ?u}"
  then consider "m = ?a" | "m = ?l" | "m = ?u" by blast
  then show "\<exists>f s1 deps. download_module example_env s m = (Inr (Some f), s1) \<and> f \<noteq> [] \<and>
        api_cache s1 \<subseteq>\<^sub>m api_cache resolved_state \<and>
        get_dependencies example_env f = Inr deps \<and>
        (\<forall>dep. Some dep \<in> set deps \<longrightarrow> dep \<in> {?a, ?l, ?u} \<and> ?rank dep < ?rank m)"
  proof cases
    case 1
    from example_download [OF i, of m app_doc "''/cache/app-1.0-py3-none-any.whl''"] 1
    obtain s1 where "download_module example_env s m
                       = (Inr (Some ''/cache/app-1.0-py3-none-any.whl''), s1)"
      and "api_cache s1 \<subseteq>\<^sub>m api_cache resolved_state" by auto
    then show ?thesis
      using example_dependencies(1) 1 by (auto simp: InstallModule1_def)
  next
    case 2
    from example_download [OF i, of m lib_doc "''/cache/lib-2.0-py3-none-any.whl''"] 2
    obtain s1 where "download_module example_env s m
                       = (Inr (Some ''/cache/lib-2.0-py3-none-any.whl''), s1)"
      and "api_cache s1 \<subseteq>\<^sub>m api_cache resolved_state" by auto
    then show ?thesis
      using example_dependencies(2) 2 by (auto simp: InstallModule1_def)
  next
    case 3
    from example_download [OF i, of m util_doc "''/cache/util-0.1.tar.gz''"] 3
    obtain s1 where "download_module example_env s m
                       = (Inr (Some ''/cache/util-0.1.tar.gz''), s1)"
      and "api_cache s1 \<subseteq>\<^sub>m api_cache resolved_state" by auto
    then show ?thesis
      using example_dependencies(3) 3 by (auto simp: InstallModule1_def)
  qed
qed
text \<open>
  C4: the list a call with \<open>depth = 0\<close> returns is the accumulated list of pairs,
  sorted by depth (a stable sort) and then deduplicated by path with the first
  occurrence kept. Whenever a returned archive \<open>X\<close> depends on an archive \<open>Y\<close>, \<open>Y\<close>
  stands before \<open>X\<close> in the returned list. (A run that returns has met no cycle and no
  exception; a dependency that cannot be resolved has no archive and so is no \<open>Y\<close>.) A call
  with \<open>depth < 0\<close> returns its own pair followed by what the loop over the
  dependencies collected, neither sorted nor deduplicated. And over an acyclic,
  resolvable graph of requests the top-level call does return such a list: with
  fuel above the rank of the request, the run ends with a non-empty list.
\<close>

theorem top_level_sorted_deduplicated:
  "(get_module_recursive (Suc fuel) env s modul 0 = Some (Inr files, s') \<longrightarrow>
      distinct files \<and>
      (files \<noteq> [] \<longrightarrow>
         (\<exists>module_file s1 deps found ts.
            download_module env s modul = (Inr (Some module_file), s1) \<and>
            get_dependencies env module_file = Inr deps \<and>
            deps_loop fuel env s1 deps 0 [] = Some (Inr found, s') \<and>
            tuples_of found = Some ts \<and>
            sorted (map snd (sort_key snd ((module_file, 0) # ts))) \<and>
            files = map Str (clean_duplicated_files
                               (map fst (sort_key snd ((module_file, 0) # ts)))))) \<and>
      (\<forall>X Y. Str X \<in> set files \<and> depends_on env s' X Y \<longrightarrow>
         (\<exists>pre post. files = pre @ Str X # post \<and> Str Y \<in> set pre))) \<and>
   (depth < 0 \<and> get_module_recursive (Suc fuel) env s modul depth = Some (Inr res, s') \<and>
    res \<noteq> [] \<longrightarrow>
      (\<exists>module_file s1 deps found.
         download_module env s modul = (Inr (Some module_file), s1) \<and>
         get_dependencies env module_file = Inr deps \<and>
         deps_loop fuel env s1 deps depth [] = Some (Inr found, s') \<and>
         res = Tup module_file depth # found)) \<and>
   (I s \<and> modul \<in> G \<and>
    (\<forall>s m. I s \<and> m \<in> G \<longrightarrow>
       (\<exists>f s1 deps. download_module env s m = (Inr (Some f), s1) \<and> f \<noteq> [] \<and> I s1 \<and>
          get_dependencies env f = Inr deps \<and>
          (\<forall>dep. Some dep \<in> set deps \<longrightarrow> dep \<in> G \<and> rank dep < rank m))) \<longrightarrow>
      (\<exists>returned final.
         get_module_recursive (Suc (rank modul)) env s modul 0 = Some (Inr returned, final) \<and>
         returned \<noteq> []))"
proof (intro conjI impI allI)
  assume run: "get_module_recursive (Suc fuel) env s modul 0 = Some (Inr files, s')"
  show "distinct files"
  proof (cases "files = []")
    case True
    then show ?thesis by simp
  next
    case False
    from top_level_shape [OF run False] obtain T where
      "files = map Str (clean_duplicated_files T)" by blast
    then show ?thesis by (simp add: distinct_map clean_distinct inj_on_def)
  qed
next
  assume run: "get_module_recursive (Suc fuel) env s modul 0 = Some (Inr files, s')"
    and ne: "files \<noteq> []"
  from top_level_shape [OF run ne]
  obtain module_file s1 deps found ts where
    a: "download_module env s modul = (Inr (Some module_file), s1)"
      "get_dependencies env module_file = Inr deps"
      "deps_loop fuel env s1 deps 0 [] = Some (Inr found, s')"
      "tuples_of found = Some ts"
      "files = map Str (clean_duplicated_files (map fst (sort_key snd ((module_file, 0) # ts))))"
    by blast
  have "sorted (map snd (sort_key snd ((module_file, 0 :: int) # ts)))"
    by (rule sorted_sort_key)
  then show "\<exists>module_file s1 deps found ts.
            download_module env s modul = (Inr (Some module_file), s1) \<and>
            get_dependencies env module_file = Inr deps \<and>
            deps_loop fuel env s1 deps 0 [] = Some (Inr found, s') \<and>
            tuples_of found = Some ts \<and>
            sorted (map snd (sort_key snd ((module_file, 0) # ts))) \<and>
            files = map Str (clean_duplicated_files
                               (map fst (sort_key snd ((module_file, 0) # ts))))"
    using a by blast
next
  fix X Y
  assume run: "get_module_recursive (Suc fuel) env s modul 0 = Some (Inr files, s')"
    and "Str X \<in> set files \<and> depends_on env s' X Y"
  then show "\<exists>pre post. files = pre @ Str X # post \<and> Str Y \<in> set pre"
    using top_level_dependency_first by blast
next
  assume a: "depth < 0 \<and> get_module_recursive (Suc fuel) env s modul depth = Some (Inr res, s') \<and>
    res \<noteq> []"
  obtain x y where dl: "download_module env s modul = (x, y)"
    by (cases "download_module env s modul")
  from a dl obtain b where x: "x = Inr b" by (cases x) auto
  from a dl x obtain fpath where b: "b = Some fpath" and nf: "fpath \<noteq> []"
    by (cases b) (auto split: if_splits)
  from a dl x b nf obtain deps where gd: "get_dependencies env fpath = Inr deps"
    by (cases "get_dependencies env fpath") auto
  from a dl x b nf gd obtain found where
    "deps_loop fuel env y deps depth [] = Some (Inr found, s')" "res = Tup fpath depth # found"
    by (auto split: option.splits sum.splits prod.splits)
  then show "\<exists>module_file s1 deps found.
         download_module env s modul = (Inr (Some module_file), s1) \<and>
         get_dependencies env module_file = Inr deps \<and>
         deps_loop fuel env s1 deps depth [] = Some (Inr found, s') \<and>
         res = Tup module_file depth # found"
    using dl x b gd by blast
next
  assume a: "I s \<and> modul \<in> G \<and>
    (\<forall>s m. I s \<and> m \<in> G \<longrightarrow>
       (\<exists>f s1 deps. download_module env s m = (Inr (Some f), s1) \<and> f \<noteq> [] \<and> I s1 \<and>
          get_dependencies env f = Inr deps \<and>
          (\<forall>dep. Some dep \<in> set deps \<longrightarrow> dep \<in> G \<and> rank dep < rank m)))"
  then have "\<exists>files s'. get_module_recursive (Suc (rank modul)) env s modul 0
                = Some (Inr files, s') \<and> files \<noteq> []"
    using top_level_returns [of I G env rank s modul] by blast
  then show "\<exists>returned final.
         get_module_recursive (Suc (rank modul)) env s modul 0 = Some (Inr returned, final) \<and>
         returned \<noteq> []"
    by blast
qed

theorem top_level_sorted_deduplicated_witness:
  "get_module_recursive (Suc 3) example_env empty_state (InstallModule1 ''app'') 0
     = Some (Inr [Str ''/cache/util-0.1.tar.gz'', Str ''/cache/lib-2.0-py3-none-any.whl'',
                  Str ''/cache/app-1.0-py3-none-any.whl''], resolved_state) \<and>
   depends_on example_env resolved_state
     ''/cache/app-1.0-py3-none-any.whl'' ''/cache/lib-2.0-py3-none-any.whl'' \<and>
   depends_on example_env resolved_state
     ''/cache/lib-2.0-py3-none-any.whl'' ''/cache/util-0.1.tar.gz'' \<and>
   (\<exists>pre post. [Str ''/cache/util-0.1.tar.gz'', Str ''/cache/lib-2.0-py3-none-any.whl'',
                 Str ''/cache/app-1.0-py3-none-any.whl'']
                  = pre @ Str ''/cache/app-1.0-py3-none-any.whl'' # post
               \<and> Str ''/cache/lib-2.0-py3-none-any.whl'' \<in> set pre) \<and>
   (\<exists>pre post. [Str ''/cache/util-0.1.tar.gz'', Str ''/cache/lib-2.0-py3-none-any.whl'',
                 Str ''/cache/app-1.0-py3-none-any.whl'']
                  = pre @ Str ''/cache/lib-2.0-py3-none-any.whl'' # post
               \<and> Str ''/cache/util-0.1.tar.gz'' \<in> set pre) \<and>
   (- 1 :: int) < 0 \<and>
   get_module_recursive (Suc 3) example_env empty_state (InstallModule1 ''app'') (- 1)
     = Some (Inr [Tup ''/cache/app-1.0-py3-none-any.whl'' (- 1),
                  Tup ''/cache/lib-2.0-py3-none-any.whl'' (- 2),
                  Tup ''/cache/util-0.1.tar.gz'' (- 3),
                  Tup ''/cache/util-0.1.tar.gz'' (- 2)], resolved_state) \<and>
   (\<exists>found. deps_loop 3 example_env
               \<lparr>api_cache = [''app'' \<mapsto> app_doc], requests = [''app'']\<rparr>
               [Some \<lparr>name = ''lib'',
                      version_requirements =
                        [\<lparr>version = Some (LooseVersion ''1.0''), operator = ''>=''\<rparr>]\<rparr>,
                Some (InstallModule1 ''util'')] (- 1) []
               = Some (Inr found, resolved_state) \<and>
            [Tup ''/cache/app-1.0-py3-none-any.whl'' (- 1),
             Tup ''/cache/lib-2.0-py3-none-any.whl'' (- 2),
             Tup ''/cache/util-0.1.tar.gz'' (- 3),
             Tup ''/cache/util-0.1.tar.gz'' (- 2)]
              = Tup ''/cache/app-1.0-py3-none-any.whl'' (- 1) # found) \<and>
   api_cache empty_state \<subseteq>\<^sub>m api_cache resolved_state \<and>
   (\<exists>returned final.
      get_module_recursive (Suc 2) example_env empty_state (InstallModule1 ''app'') 0
        = Some (Inr returned, final) \<and> returned \<noteq> [])"
proof -
  let ?U = "''/cache/util-0.1.tar.gz''"
  let ?L = "''/cache/lib-2.0-py3-none-any.whl''"
  let ?A = "''/cache/app-1.0-py3-none-any.whl''"
  let ?lib = "\<lparr>name = ''lib'',
               version_requirements =
                 [\<lparr>version = Some (LooseVersion ''1.0''), operator = ''>=''\<rparr>]\<rparr>"
  let ?G = "{InstallModule1 ''app'', ?lib, InstallModule1 ''util''}"
  let ?I = "\<lambda>s. api_cache s \<subseteq>\<^sub>m api_cache resolved_state"
  let ?rank = "\<lambda>m. if name m = ''app'' then 2 else if name m = ''lib'' then 1 else 0 :: nat"
  let ?files = "[Str ?U, Str ?L, Str ?A]"
  let ?res = "[Tup ?A (- 1), Tup ?L (- 2), Tup ?U (- 3), Tup ?U (- 2)]"
  note t = top_level_sorted_deduplicated
             [where fuel = 3 and env = example_env and s = empty_state
                and modul = "InstallModule1 ''app''" and files = ?files and s' = resolved_state
                and depth = "- 1" and res = ?res and I = ?I and G = ?G and rank = ?rank]
  note top = t [THEN conjunct1, THEN mp, OF example_run_top]
  have o1: "\<exists>pre post. ?files = pre @ Str ?A # post \<and> Str ?L \<in> set pre"
    using top example_depends(1) by simp
  have o2: "\<exists>pre post. ?files = pre @ Str ?L # post \<and> Str ?U \<in> set pre"
    using top example_depends(3) by simp
  have "(- 1 :: int) < 0 \<and>
        get_module_recursive (Suc 3) example_env empty_state (InstallModule1 ''app'') (- 1)
          = Some (Inr ?res, resolved_state) \<and> ?res \<noteq> []"
    using example_run_below by simp
  from t [THEN conjunct2, THEN conjunct1, THEN mp, OF this]
  obtain module_file s1 deps found where
    d: "download_module example_env empty_state (InstallModule1 ''app'') = (Inr (Some module_file), s1)"
    and g: "get_dependencies example_env module_file = Inr deps"
    and l: "deps_loop 3 example_env s1 deps (- 1) [] = Some (Inr found, resolved_state)"
    and r: "?res = Tup module_file (- 1) # found"
    by blast
  have d': "download_module example_env empty_state (InstallModule1 ''app'')
              = (Inr (Some ?A), \<lparr>api_cache = [''app'' \<mapsto> app_doc], requests = [''app'']\<rparr>)"
    by (simp add: run_eval)
  have o3: "\<exists>found. deps_loop 3 example_env
               \<lparr>api_cache = [''app'' \<mapsto> app_doc], requests = [''app'']\<rparr>
               [Some ?lib, Some (InstallModule1 ''util'')] (- 1) []
               = Some (Inr found, resolved_state) \<and>
            ?res = Tup ?A (- 1) # found"
    using d g l r d' example_dependencies(1) by auto
  have i0: "?I empty_state"
    by (simp add: empty_state_def)
  have g0: "InstallModule1 ''app'' \<in> ?G"
    by simp
  have "?I empty_state \<and> InstallModule1 ''app'' \<in> ?G \<and>
    (\<forall>s m. ?I s \<and> m \<in> ?G \<longrightarrow>
       (\<exists>f s1 deps. download_module example_env s m = (Inr (Some f), s1) \<and> f \<noteq> [] \<and> ?I s1 \<and>
          get_dependencies example_env f = Inr deps \<and>
          (\<forall>dep. Some dep \<in> set deps \<longrightarrow> dep \<in> ?G \<and> ?rank dep < ?rank m)))"
    using i0 g0 example_graph by blast
  from t [THEN conjunct2, THEN conjunct2, THEN mp, OF this]
  have "\<exists>returned final.
      get_module_recursive (Suc (?rank (InstallModule1 ''app''))) example_env empty_state
        (InstallModule1 ''app'') 0 = Some (Inr returned, final) \<and> returned \<noteq> []" .
  moreover have "?rank (InstallModule1 ''app'') = 2" by (simp add: InstallModule1_def)
  ultimately have o4: "\<exists>returned final.
      get_module_recursive (Suc 2) example_env empty_state (InstallModule1 ''app'') 0
        = Some (Inr returned, final) \<and> returned \<noteq> []"
    by (simp del: get_module_recursive.simps)
  show ?thesis
    using example_run_top example_run_below example_depends(1) example_depends(3) o1 o2 o3 i0 o4
    by (simp del: get_module_recursive.simps)
qed

subsection \<open>Supporting facts on the search of the releases and on the index requests\<close>

text \<open>
  The loop of \<open>get_url\<close> over the sorted releases tests the constraints: run alone on the
  releases of the project \<open>lib\<close> with the constraint \<open>< 2.0\<close>, it returns the wheel of the
  version 1.0.  One fetch of a project sends at most 22 requests to the index: the first
  one, 20 in the loop of the redirections, and one for the last answer.
\<close>

lemma releases_loop_respects_constraint:
  "bind_res (sort_releases (JDict [(''1.0'', JList [lib1_whl]), (''2.0'', JList [lib2_whl])]))
     (releases_loop example_env
        \<lparr>name = ''lib'',
          version_requirements = [\<lparr>version = Some (LooseVersion ''2.0''), operator = ''<''\<rparr>]\<rparr>
        ''whl'')
     = Inr (JStr ''https://files/lib-1.0-py3-none-any.whl'')"
  by (simp add: json_eval url_eval version_eval)

lemma redirect_loop_requests:
  "redirect_loop env count s obj = (r, s') \<Longrightarrow>
     length (requests s') \<le> length (requests s) + (max_count - count)"
proof (induction env count s obj arbitrary: r s' rule: redirect_loop.induct)
  case (1 env count s obj)
  have one_text: "length (requests y) \<le> length (requests s) + 1"
    if "fix_301_text env s obj = (x, y)" for x y
    using that
    by (auto simp: fix_301_text_def get_response_def Let_def split: json.splits option.splits)
  have one_json: "length (requests y) \<le> length (requests s) + 1"
    if "fix_301_json env s obj = (x, y)" for x y
    using that
    by (auto simp: fix_301_json_def get_response_def Let_def
             split: json.splits option.splits sum.splits)
  show ?case
  proof (cases "count < max_count")
    case False
    then show ?thesis using "1.prems" by (simp add: redirect_loop.simps)
  next
    case lt: True
    show ?thesis
    proof (cases "check_301_text obj")
      case True
      obtain x y where f: "fix_301_text env s obj = (x, y)" by (cases "fix_301_text env s obj")
      show ?thesis
      proof (cases x)
        case (Inl e)
        then show ?thesis using "1.prems" lt True f one_text [OF f]
          by (simp add: redirect_loop.simps)
      next
        case (Inr b)
        then have "redirect_loop env (count + 1) y b = (r, s')"
          using "1.prems" lt True f by (simp add: redirect_loop.simps)
        then have "length (requests s') \<le> length (requests y) + (max_count - (count + 1))"
          using "1.IH"(1) [OF lt True f [symmetric] Inr] by blast
        then show ?thesis using one_text [OF f] lt by simp
      qed
    next
      case nt: False
      show ?thesis
      proof (cases "check_301_json obj")
        case False
        then show ?thesis using "1.prems" lt nt by (simp add: redirect_loop.simps)
      next
        case True
        obtain x y where f: "fix_301_json env s obj = (x, y)" by (cases "fix_301_json env s obj")
        show ?thesis
        proof (cases x)
          case (Inl e)
          then show ?thesis using "1.prems" lt nt True f one_json [OF f]
            by (simp add: redirect_loop.simps)
        next
          case (Inr b)
          then have "redirect_loop env (count + 1) y b = (r, s')"
            using "1.prems" lt nt True f by (simp add: redirect_loop.simps)
          then have "length (requests s') \<le> length (requests y) + (max_count - (count + 1))"
            using "1.IH"(2) [OF lt nt True f [symmetric] Inr] by blast
          then show ?thesis using one_json [OF f] lt by simp
        qed
      qed
    qed
  qed
qed

lemma get_project_json_requests:
  assumes "get_project_json env s project = (r, s')"
  shows "length (requests s') \<le> length (requests s) + 22"
proof (cases "api_cache s project")
  case (Some cached)
  then show ?thesis using assms by (simp add: get_project_json_def)
next
  case None
  obtain body s1 where g: "get_response env s project = (body, s1)"
    by (cases "get_response env s project")
  have l1: "length (requests s1) = length (requests s) + 1"
    using g by (auto simp: get_response_def)
  obtain x s2 where f: "fix_301_text env s1 (JStr body) = (x, s2)"
    by (cases "fix_301_text env s1 (JStr body)")
  have l2: "length (requests s2) \<le> length (requests s1) + 1"
    using f
    by (auto simp: fix_301_text_def get_response_def Let_def split: json.splits option.splits)
  show ?thesis
  proof (cases x)
    case (Inl e)
    then show ?thesis using assms None g f l1 l2 by (auto simp: get_project_json_def)
  next
    case (Inr obj)
    obtain x3 s3 where l: "redirect_loop env 0 s2 obj = (x3, s3)"
      by (cases "redirect_loop env 0 s2 obj")
    have l3: "length (requests s3) \<le> length (requests s2) + 20"
      using redirect_loop_requests [OF l] by (simp add: max_count_def)
    show ?thesis
      using assms None g f Inr l l1 l2 l3
      by (cases x3) (auto simp: get_project_json_def Let_def)
  qed
qed

text \<open>
  The exception of a failing sort: an unparsed key among versions that can be ordered
  gives \<open>AttributeError\<close>; two parsed keys that set a string against an integer give
  \<open>TypeError\<close>.
\<close>

lemma sort_releases_unparsed_key:
  "sort_releases (JDict [(''1.0'', JList []), ('''', JList []), (''1.1'', JList [])])
     = Inl AttributeError"
  by (simp add: url_eval version_eval)

lemma sort_releases_mixed_components:
  "sort_releases (JDict [(''2.0rc1'', JList []), (''2.0.1'', JList [])]) = Inl TypeError"
  by (simp add: url_eval version_eval)

end
